(* ===== verification/Prelude.thy ===== *)
theory Prelude
  imports "HOL-Library.Word" "HOL-Library.Finite_Map" "HOL-Library.Multiset" "HOL-Library.AList"
begin

text \<open>
  Shared vocabulary of the development.

  \<^item> machine integers: a Go \<open>uint64\<close> is a \<open>64 word\<close>, a \<open>uint8\<close> or \<open>byte\<close> an
    \<open>8 word\<close>; \<open>+\<close> and \<open>-\<close> wrap exactly as in Go. A Go \<open>int\<close> that only
    counts is an \<open>int\<close>;
  \<^item> a Go slice distinguishes \<open>nil\<close> from empty: \<open>'a slice\<close> is an option, \<open>None\<close> is
    \<open>nil\<close>, and \<open>contents\<close> is what indexing and \<open>range\<close> see;
  \<^item> a Go map is a finite map \<open>fmap\<close>; \<open>range\<close> visits its entries in an order the
    runtime picks, so a loop takes that order as an argument, and \<open>map_order\<close> says which
    lists are possible orders;
  \<^item> a pair \<open>(value, error)\<close> is \<open>error + 'a\<close>, and a call that may panic has the
    result type \<open>outcome\<close>;
  \<^item> reachability of a step relation and the locale \<open>inductive_invariant\<close>, the
    contract every invariant of the development discharges.
\<close>

section \<open>Machine integers, slices and strings\<close>

type_synonym u8 = "8 word"
type_synonym u64 = "64 word"
type_synonym bytes = "u8 list"
type_synonym 'a slice = "'a list option"
type_synonym gobytes = "u8 slice"

definition contents :: "'a slice \<Rightarrow> 'a list" where
  "contents s = (case s of None \<Rightarrow> [] | Some xs \<Rightarrow> xs)"

lemma contents_simps [simp]: "contents None = []" "contents (Some xs) = xs"
  by (simp_all add: contents_def)

text \<open>\<open>bytes.Equal\<close>: a nil argument is equivalent to an empty slice.\<close>

definition bytes_Equal :: "gobytes \<Rightarrow> gobytes \<Rightarrow> bool" where
  "bytes_Equal a b \<longleftrightarrow> contents a = contents b"

text \<open>
  A Go string is a sequence of bytes; \<open>[]byte(s)\<close> copies them into a slice and
  \<open>string(b)\<close> copies them back.
\<close>

definition byte_of_char :: "char \<Rightarrow> u8" where
  "byte_of_char c = word_of_nat (of_char c)"

definition char_of_byte :: "u8 \<Rightarrow> char" where
  "char_of_byte b = char_of (unat b)"

definition bytes_of_string :: "string \<Rightarrow> bytes" where
  "bytes_of_string s = map byte_of_char s"

definition string_of_bytes :: "bytes \<Rightarrow> string" where
  "string_of_bytes bs = map char_of_byte bs"

lemma char_of_byte_of_char [simp]: "char_of_byte (byte_of_char c) = c"
  by (simp add: char_of_byte_def byte_of_char_def unat_of_nat char_of_mod_256 [of "of_char c :: nat", simplified])

lemma byte_of_char_of_byte [simp]: "byte_of_char (char_of_byte b) = b"
proof -
  have "unat b < 256" using unsigned_less [of b] by simp
  then show ?thesis by (simp add: char_of_byte_def byte_of_char_def)
qed

lemma string_of_bytes_of_string [simp]: "string_of_bytes (bytes_of_string s) = s"
  by (simp add: string_of_bytes_def bytes_of_string_def comp_def)

lemma bytes_of_string_of_bytes [simp]: "bytes_of_string (string_of_bytes b) = b"
  by (simp add: string_of_bytes_def bytes_of_string_def comp_def)

section \<open>Round trips as an interface\<close>

text \<open>
  Several parts of the program write a value out and read it back: \<open>hex\<close>, base64,
  decimal numbers, key shares. The law they promise is one locale; that the writer is
  injective is proved once, inside it.
\<close>

locale codec =
  fixes enc :: "'a \<Rightarrow> 'b"
    and dec :: "'b \<Rightarrow> 'a option"
  assumes dec_enc: "dec (enc x) = Some x"
begin

lemma enc_inject: "enc x = enc y \<longleftrightarrow> x = y"
  by (metis dec_enc option.inject)

lemma enc_inj: "inj enc"
  by (rule injI) (simp add: enc_inject)

lemma enc_map_inject: "map enc xs = map enc ys \<longleftrightarrow> xs = ys"
  by (simp add: inj_map_eq_map enc_inj)

end

interpretation go_string: codec bytes_of_string "\<lambda>bs. Some (string_of_bytes bs)"
  by unfold_locales simp

section \<open>Errors and panics\<close>

text \<open>
  The errors the program makes itself, one constructor per message, and \<open>ErrExternal\<close>
  for an error some library call returned.
\<close>

datatype error =
    ErrExternal string
  | ErrUnsupportedType
  | ErrHexByte char
  | ErrHexLength
  | ErrProposersDiffer string string
  | ErrHeightsDiffer u64 u64
  | ErrPreviousHashesDiffer
  | ErrOneCmdsNil
  | ErrCmdsLengthsDiffer
  | ErrCmdsDifferAt nat
  | ErrQCsDiffer
  | ErrChainHeightDiffers
  | ErrNoBlockAtHeight
  | ErrSelectBlock
  | ErrThresholdInvalid
  | ErrEOF
  | ErrUnknownType u8
  | ErrTransportShutdown
  | ErrNoTransport
  | ErrJSON
  | ErrPublicKeyFormat

text \<open>A call that may panic: in a goroutine a panic ends the whole process.\<close>

datatype panic =
    NilDereference
  | PanicError error
  | PanicMessage string
  | BadKeyLength
  | BadTypeAssertion
  | ClosedChannel
  | IndexOutOfRange

datatype 'a outcome = Ret 'a | Panic panic

fun bind_outcome :: "'a outcome \<Rightarrow> ('a \<Rightarrow> 'b outcome) \<Rightarrow> 'b outcome" where
  "bind_outcome (Ret x) f = f x"
| "bind_outcome (Panic p) f = Panic p"

lemma bind_outcome_Ret_iff:
  "bind_outcome r f = Ret y \<longleftrightarrow> (\<exists>x. r = Ret x \<and> f x = Ret y)"
  by (cases r) auto

lemma bind_outcome_assoc [simp]:
  "bind_outcome (bind_outcome r f) g = bind_outcome r (\<lambda>x. bind_outcome (f x) g)"
  by (cases r) auto

text \<open>\<open>v, _ := f()\<close>: the error is dropped, the value is the zero value when there is one.\<close>

fun ignore_err :: "'a \<Rightarrow> error + 'a \<Rightarrow> 'a" where
  "ignore_err zero (Inl e) = zero"
| "ignore_err zero (Inr v) = v"

fun ok_of :: "error + 'a \<Rightarrow> 'a option" where
  "ok_of (Inl e) = None"
| "ok_of (Inr v) = Some v"

section \<open>Go maps\<close>

definition map_len :: "('k, 'v) fmap \<Rightarrow> nat" where
  "map_len m = fcard (fmdom m)"

lemma map_len_empty [simp]: "map_len fmempty = 0"
  by (simp add: map_len_def)

lemma map_len_fmupd [simp]:
  "map_len (fmupd k v m) = (if k |\<in>| fmdom m then map_len m else Suc (map_len m))"
  by (simp add: map_len_def fcard_finsert_disjoint finsert_absorb)

lemma map_len_card: "map_len m = card (fmdom' m)"
  by (simp add: map_len_def fcard.rep_eq fmdom'_alt_def)

text \<open>Reading a missing entry of a map of maps gives a nil map, which reads as empty.\<close>

definition lookup_nil :: "('k, ('l, 'v) fmap) fmap \<Rightarrow> 'k \<Rightarrow> ('l, 'v) fmap" where
  "lookup_nil m k = (case fmlookup m k of None \<Rightarrow> fmempty | Some m' \<Rightarrow> m')"

lemma lookup_nil_fmempty [simp]: "lookup_nil fmempty k = fmempty"
  by (simp add: lookup_nil_def)

lemma lookup_nil_fmupd [simp]:
  "lookup_nil (fmupd k v m) k' = (if k = k' then v else lookup_nil m k')"
  by (simp add: lookup_nil_def)

text \<open>Reading a missing \<open>bool\<close> entry gives \<open>false\<close>.\<close>

definition lookup_bool :: "('k, bool) fmap \<Rightarrow> 'k \<Rightarrow> bool" where
  "lookup_bool m k \<longleftrightarrow> fmlookup m k = Some True"

lemma lookup_bool_fmempty [simp]: "\<not> lookup_bool fmempty k"
  by (simp add: lookup_bool_def)

lemma lookup_bool_fmupd [simp]:
  "lookup_bool (fmupd k v m) k' \<longleftrightarrow> (if k = k' then v else lookup_bool m k')"
  by (simp add: lookup_bool_def)

text \<open>The lists of entries a \<open>range\<close> over the map can visit.\<close>

definition map_order :: "('k, 'v) fmap \<Rightarrow> ('k \<times> 'v) list \<Rightarrow> bool" where
  "map_order m xs \<longleftrightarrow> distinct (map fst xs) \<and> fmap_of_list xs = m"

lemma map_order_lookup:
  assumes "map_order m xs"
  shows "(k, v) \<in> set xs \<longleftrightarrow> fmlookup m k = Some v"
  using assms by (auto simp: map_order_def fmlookup_of_list)

lemma map_order_length:
  assumes "map_order m xs"
  shows "length xs = map_len m"
proof -
  from assms have "map_len m = card (set (map fst xs))"
    by (auto simp: map_order_def map_len_def fcard.rep_eq fset_of_list.rep_eq)
  also have "\<dots> = length xs"
    using assms by (simp add: map_order_def distinct_card del: set_map)
  finally show ?thesis by simp
qed

lemma map_order_exists: "\<exists>xs. map_order m xs"
proof -
  obtain xs where "fmap_of_list xs = m" using exists_fmap_of_list by blast
  then have "map_order m (AList.clearjunk xs)"
    by (auto simp: map_order_def fmlookup_of_list map_of_clearjunk intro!: fmap_ext)
  then show ?thesis by blast
qed

section \<open>Arithmetic on heights\<close>

lemma unat_Suc_u64: "h \<noteq> - 1 \<Longrightarrow> unat (h + 1 :: u64) = Suc (unat h)"
  using unatSuc [of h] by (simp add: add.commute add_eq_0_iff)

lemma u64_less_Suc: "h \<noteq> - 1 \<Longrightarrow> x < h + 1 \<longleftrightarrow> x \<le> (h :: u64)"
  by (simp add: word_less_nat_alt word_le_nat_alt unat_Suc_u64 less_Suc_eq_le)

lemma u64_le_Suc: "h \<noteq> - 1 \<Longrightarrow> x \<le> h + 1 \<longleftrightarrow> x \<le> h \<or> x = (h + 1 :: u64)"
  using u64_less_Suc [of h x] by (auto simp: le_less)

lemma unat_dec_less: "(a :: u64) < b \<Longrightarrow> unat (b - 1) < unat b"
  by (metis measure_unat word_coorder.not_eq_extremum word_not_simps(1))

section \<open>Reachable states and invariants\<close>

inductive reachable :: "('s \<Rightarrow> bool) \<Rightarrow> ('s \<Rightarrow> 's \<Rightarrow> bool) \<Rightarrow> 's \<Rightarrow> bool"
  for init :: "'s \<Rightarrow> bool" and step :: "'s \<Rightarrow> 's \<Rightarrow> bool" where
  reach_init: "init s \<Longrightarrow> reachable init step s"
| reach_step: "reachable init step s \<Longrightarrow> step s t \<Longrightarrow> reachable init step t"

text \<open>
  The contract between a component and its clients: the component's initial states
  satisfy the invariant and each of its steps keeps it; the client may then rely on it in
  every reachable state, and use it to strengthen the next invariant.
\<close>

locale inductive_invariant =
  fixes init :: "'s \<Rightarrow> bool"
    and step :: "'s \<Rightarrow> 's \<Rightarrow> bool"
    and inv :: "'s \<Rightarrow> bool"
  assumes inv_init: "init s \<Longrightarrow> inv s"
    and inv_step: "inv s \<Longrightarrow> step s t \<Longrightarrow> inv t"
begin

lemma inv_reachable: "reachable init step s \<Longrightarrow> inv s"
  by (induction rule: reachable.induct) (auto intro: inv_init inv_step)

lemma inv_rtranclp: "step\<^sup>*\<^sup>* s t \<Longrightarrow> inv s \<Longrightarrow> inv t"
  by (induction rule: rtranclp_induct) (auto intro: inv_step)

end

end
