(* ===== verification/Go_Encoding.thy ===== *)
theory Go_Encoding
  imports Prelude
begin

text \<open>
  What the program uses of Go's text encodings: \<open>encoding/hex\<close> (the map keys of blocks
  are the hex strings of their hashes, and the configuration files hold keys in hex),
  decimal numbers (\<open>strconv\<close>, \<open>fmt\<close>) and \<open>encoding/json\<close>, whose encoder is the
  body of \<open>encode\<close> in \<open>core/utils.go\<close> and \<open>sign/sign_tools.go\<close>. The JSON encoder is
  the one of Go 1.12 with its default options: HTML characters escaped, invalid UTF-8
  replaced, a nil slice written as \<open>null\<close>, byte slices in padded base64, and a newline
  after the value.
\<close>

section \<open>Hexadecimal\<close>

definition hex_digit :: "nat \<Rightarrow> char" where
  "hex_digit n = ''0123456789abcdef'' ! n"

definition fromHexChar :: "char \<Rightarrow> nat option" where
  "fromHexChar c = (let n = of_char c :: nat in
     if 48 \<le> n \<and> n \<le> 57 then Some (n - 48)
     else if 97 \<le> n \<and> n \<le> 102 then Some (n - 87)
     else if 65 \<le> n \<and> n \<le> 70 then Some (n - 55)
     else None)"

fun hex_EncodeToString :: "bytes \<Rightarrow> string" where
  "hex_EncodeToString [] = []"
| "hex_EncodeToString (b # bs) =
     hex_digit (unat b div 16) # hex_digit (unat b mod 16) # hex_EncodeToString bs"

fun hex_DecodeString :: "string \<Rightarrow> error + bytes" where
  "hex_DecodeString [] = Inr []"
| "hex_DecodeString [c] =
     (case fromHexChar c of None \<Rightarrow> Inl (ErrHexByte c) | Some _ \<Rightarrow> Inl ErrHexLength)"
| "hex_DecodeString (c # d # s) =
     (case fromHexChar c of
        None \<Rightarrow> Inl (ErrHexByte c)
      | Some a \<Rightarrow> (case fromHexChar d of
          None \<Rightarrow> Inl (ErrHexByte d)
        | Some b \<Rightarrow> (case hex_DecodeString s of
            Inl e \<Rightarrow> Inl e
          | Inr bs \<Rightarrow> Inr (word_of_nat (16 * a + b) # bs))))"

lemma fromHexChar_hex_digit [simp]: "n < 16 \<Longrightarrow> fromHexChar (hex_digit n) = Some n"
proof -
  have "list_all (\<lambda>n. fromHexChar (hex_digit n) = Some n) [0..<16]" by code_simp
  then show "n < 16 \<Longrightarrow> fromHexChar (hex_digit n) = Some n" by (simp add: list_all_iff)
qed

lemma unat_u8_less: "unat (b :: u8) < 256"
  using unsigned_less [of b] by simp

lemma hex_Decode_Encode [simp]: "hex_DecodeString (hex_EncodeToString bs) = Inr bs"
proof (induction bs)
  case (Cons b bs)
  have "unat b div 16 < 16" using unat_u8_less [of b] by simp
  with Cons show ?case by simp
qed simp

interpretation hex: codec hex_EncodeToString "\<lambda>s. ok_of (hex_DecodeString s)"
  by unfold_locales simp

lemma length_hex_Encode [simp]: "length (hex_EncodeToString bs) = 2 * length bs"
  by (induction bs) simp_all

section \<open>Decimal numbers\<close>

definition dec_digit :: "nat \<Rightarrow> char" where
  "dec_digit n = ''0123456789'' ! n"

fun decimal :: "nat \<Rightarrow> string" where
  "decimal n = (if n < 10 then [dec_digit n] else decimal (n div 10) @ [dec_digit (n mod 10)])"

declare decimal.simps [simp del]

definition dec_value :: "string \<Rightarrow> nat" where
  "dec_value s = foldl (\<lambda>a c. 10 * a + (of_char c - 48)) 0 s"

definition is_digit :: "char \<Rightarrow> bool" where
  "is_digit c \<longleftrightarrow> 48 \<le> (of_char c :: nat) \<and> (of_char c :: nat) \<le> 57"

lemma dec_digit_props:
  "n < 10 \<Longrightarrow> of_char (dec_digit n) - 48 = n \<and> is_digit (dec_digit n)"
  by (subgoal_tac "n \<in> {0,1,2,3,4,5,6,7,8,9}")
    (auto simp: dec_digit_def is_digit_def)

lemma decimal_digits: "list_all is_digit (decimal n)"
proof (induction n rule: decimal.induct)
  case (1 n)
  then show ?case by (subst decimal.simps) (simp add: dec_digit_props)
qed

lemma decimal_nonempty [simp]: "decimal n \<noteq> []"
  by (subst decimal.simps) simp

lemma dec_value_decimal [simp]: "dec_value (decimal n) = n"
proof (induction n rule: decimal.induct)
  case (1 n)
  show ?case
  proof (cases "n < 10")
    case True
    then show ?thesis
      by (subst decimal.simps) (simp add: dec_value_def dec_digit_props)
  next
    case False
    then have "dec_value (decimal n) =
        10 * dec_value (decimal (n div 10)) + (of_char (dec_digit (n mod 10)) - 48)"
      by (subst decimal.simps) (simp add: dec_value_def)
    with 1 False show ?thesis by (simp add: dec_digit_props)
  qed
qed

interpretation decimal: codec decimal "\<lambda>s. Some (dec_value s)"
  by unfold_locales simp

section \<open>Base64\<close>

definition b64_alphabet :: string where
  "b64_alphabet = ''ABCDEFGHIJKLMNOPQRSTUVWXYZabcdefghijklmnopqrstuvwxyz0123456789+/''"

definition b64_digit :: "nat \<Rightarrow> char" where
  "b64_digit n = b64_alphabet ! n"

fun base64 :: "bytes \<Rightarrow> string" where
  "base64 [] = []"
| "base64 [a] =
     [b64_digit (unat a div 4), b64_digit (unat a mod 4 * 16), CHR ''='', CHR ''='']"
| "base64 [a, b] =
     [b64_digit (unat a div 4), b64_digit (unat a mod 4 * 16 + unat b div 16),
      b64_digit (unat b mod 16 * 4), CHR ''='']"
| "base64 (a # b # c # bs) =
     [b64_digit (unat a div 4), b64_digit (unat a mod 4 * 16 + unat b div 16),
      b64_digit (unat b mod 16 * 4 + unat c div 64), b64_digit (unat c mod 64)] @ base64 bs"

definition b64_value :: "char \<Rightarrow> nat" where
  "b64_value c = (let n = of_char c :: nat in
     if 65 \<le> n \<and> n \<le> 90 then n - 65
     else if 97 \<le> n \<and> n \<le> 122 then n - 71
     else if 48 \<le> n \<and> n \<le> 57 then n + 4
     else if n = 43 then 62 else 63)"

definition byte_of_nat :: "nat \<Rightarrow> u8" where
  "byte_of_nat n = word_of_nat n"

lemma byte_of_nat_unat [simp]: "byte_of_nat (unat b) = b"
  by (simp add: byte_of_nat_def)

fun unbase64 :: "string \<Rightarrow> bytes" where
  "unbase64 (p # q # r # s # rest) =
     (let x = b64_value p; y = b64_value q; z = b64_value r; w = b64_value s;
          a = byte_of_nat (x * 4 + y div 16);
          b = byte_of_nat (y mod 16 * 16 + z div 4);
          c = byte_of_nat (z mod 4 * 64 + w)
      in if r = CHR ''='' then [a] else if s = CHR ''='' then [a, b]
         else a # b # c # unbase64 rest)"
| "unbase64 _ = []"

lemma length_b64_alphabet: "length b64_alphabet = 64"
  by (simp add: b64_alphabet_def)

lemma b64_alphabet_chars: "list_all (\<lambda>c. c \<noteq> CHR ''='' \<and> c \<noteq> CHR 0x22) b64_alphabet"
  by (simp add: b64_alphabet_def)

lemma b64_value_alphabet: "map b64_value b64_alphabet = [0..<64]"
proof -
  have "map b64_value b64_alphabet =
      [0, 1, 2, 3, 4, 5, 6, 7, 8, 9, 10, 11, 12, 13, 14, 15,
       16, 17, 18, 19, 20, 21, 22, 23, 24, 25, 26, 27, 28, 29, 30, 31,
       32, 33, 34, 35, 36, 37, 38, 39, 40, 41, 42, 43, 44, 45, 46, 47,
       48, 49, 50, 51, 52, 53, 54, 55, 56, 57, 58, 59, 60, 61, 62, 63]"
    by (simp add: b64_alphabet_def b64_value_def)
  also have "\<dots> = [0..<64]"
    by (simp add: upt_rec_numeral upt_rec [of 0] upt_rec [of "Suc 0"] flip: numeral_2_eq_2)
  finally show ?thesis .
qed

lemma b64_digit_props:
  assumes "n < 64"
  shows "b64_value (b64_digit n) = n \<and> b64_digit n \<noteq> CHR ''='' \<and> b64_digit n \<noteq> CHR 0x22"
proof -
  have n: "n < length b64_alphabet" using assms by (simp only: length_b64_alphabet)
  have "b64_value (b64_digit n) = map b64_value b64_alphabet ! n"
    unfolding b64_digit_def by (rule nth_map [OF n, symmetric])
  also have "\<dots> = n" using assms by (simp only: b64_value_alphabet nth_upt add_0 diff_zero)
  finally have "b64_value (b64_digit n) = n" .
  moreover have "b64_digit n \<noteq> CHR ''='' \<and> b64_digit n \<noteq> CHR 0x22"
    using b64_alphabet_chars n unfolding b64_digit_def list_all_length by blast
  ultimately show ?thesis by simp
qed

lemma b64_ranges:
  fixes a b c :: nat
  assumes "a < 256" "b < 256" "c < 256"
  shows "a div 4 < 64" "a mod 4 * 16 < 64" "a mod 4 * 16 + b div 16 < 64"
    "b mod 16 * 4 < 64" "b mod 16 * 4 + c div 64 < 64" "c mod 64 < 64"
proof -
  have "b div 16 < 16" "c div 64 < 4" using assms by simp_all
  moreover have "a mod 4 < 4" "b mod 16 < 16" by simp_all
  ultimately show "a mod 4 * 16 + b div 16 < 64" "b mod 16 * 4 + c div 64 < 64"
    "a mod 4 * 16 < 64" "b mod 16 * 4 < 64" by linarith+
qed (use assms in simp_all)

lemma b64_join:
  fixes a b c :: nat
  assumes "a < 256" "b < 256" "c < 256"
  shows "a div 4 * 4 + (a mod 4 * 16 + b div 16) div 16 = a"
    "a div 4 * 4 + (a mod 4 * 16) div 16 = a"
    "(a mod 4 * 16 + b div 16) mod 16 * 16 + (b mod 16 * 4 + c div 64) div 4 = b"
    "(a mod 4 * 16 + b div 16) mod 16 * 16 + (b mod 16 * 4) div 4 = b"
    "(b mod 16 * 4 + c div 64) mod 4 * 64 + c mod 64 = c"
proof -
  have hi: "b div 16 div 16 = 0" "b div 16 mod 16 = b div 16"
      "c div 64 div 4 = 0" "c div 64 mod 4 = c div 64"
    using assms by simp_all
  show "a div 4 * 4 + (a mod 4 * 16 + b div 16) div 16 = a"
    "a div 4 * 4 + (a mod 4 * 16) div 16 = a"
    "(a mod 4 * 16 + b div 16) mod 16 * 16 + (b mod 16 * 4 + c div 64) div 4 = b"
    "(a mod 4 * 16 + b div 16) mod 16 * 16 + (b mod 16 * 4) div 4 = b"
    "(b mod 16 * 4 + c div 64) mod 4 * 64 + c mod 64 = c"
    by (simp_all add: hi)
qed

lemmas b64_arith = b64_ranges [OF unat_u8_less unat_u8_less unat_u8_less]
  b64_join [OF unat_u8_less unat_u8_less unat_u8_less]

lemmas b64_simps = b64_digit_props b64_arith

lemma unbase64_base64 [simp]: "unbase64 (base64 bs) = bs"
  by (induction bs rule: base64.induct)
    (simp_all only: base64.simps unbase64.simps append_Cons append_Nil Let_def b64_simps
      if_True if_False simp_thms byte_of_nat_unat)

interpretation base64: codec base64 "\<lambda>s. Some (unbase64 s)"
  by unfold_locales simp

lemma base64_no_quote: "list_all (\<lambda>c. c \<noteq> CHR 0x22) (base64 bs)"
  by (induction bs rule: base64.induct) (simp_all add: b64_simps)

section \<open>JSON\<close>

subsection \<open>Strings\<close>

text \<open>The ASCII bytes the encoder copies as they are (\<open>htmlSafeSet\<close>).\<close>

definition json_safe :: "nat \<Rightarrow> bool" where
  "json_safe n \<longleftrightarrow> 32 \<le> n \<and> n < 128 \<and> n \<notin> {34, 38, 60, 62, 92}"

definition json_escape :: "nat \<Rightarrow> string" where
  "json_escape n =
     (if n = 34 \<or> n = 92 then [CHR 0x5C, char_of n]
      else if n = 10 then [CHR 0x5C, CHR ''n'']
      else if n = 13 then [CHR 0x5C, CHR ''r'']
      else if n = 9 then [CHR 0x5C, CHR ''t'']
      else [CHR 0x5C, CHR ''u'', CHR ''0'', CHR ''0'', hex_digit (n div 16), hex_digit (n mod 16)])"

text \<open>
  The size of the well-formed multi-byte rune at the head of a byte sequence, 0 where
  there is none (\<open>utf8.DecodeRuneInString\<close>).
\<close>

definition utf8_cont :: "nat \<Rightarrow> bool" where
  "utf8_cont n \<longleftrightarrow> 128 \<le> n \<and> n \<le> 191"

definition utf8_size :: "nat list \<Rightarrow> nat" where
  "utf8_size ns =
     (case ns of
        a # b # r \<Rightarrow>
          if 194 \<le> a \<and> a \<le> 223 then (if utf8_cont b then 2 else 0)
          else if 224 \<le> a \<and> a \<le> 239 then
            (case r of
               c # _ \<Rightarrow> if (if a = 224 then 160 else 128) \<le> b \<and>
                          b \<le> (if a = 237 then 159 else 191) \<and> utf8_cont c then 3 else 0
             | [] \<Rightarrow> 0)
          else if 240 \<le> a \<and> a \<le> 244 then
            (case r of
               c # d # _ \<Rightarrow> if (if a = 240 then 144 else 128) \<le> b \<and>
                              b \<le> (if a = 244 then 143 else 191) \<and>
                              utf8_cont c \<and> utf8_cont d then 4 else 0
             | _ \<Rightarrow> 0)
          else 0
      | _ \<Rightarrow> 0)"

fun json_body :: "string \<Rightarrow> string" where
  "json_body [] = []"
| "json_body (c # cs) =
     (let n = of_char c :: nat in
      if n < 128 then (if json_safe n then [c] else json_escape n) @ json_body cs
      else
        (let k = utf8_size (map of_char (c # cs)) in
         if k = 0 then [CHR 0x5C] @ ''ufffd'' @ json_body cs
         else if take 3 (map of_char (c # cs)) \<in> {[226, 128, 168], [226, 128, 169 :: nat]} then
           [CHR 0x5C] @ ''u202'' @ [hex_digit (of_char (cs ! 1) mod 16)] @ json_body (drop 2 cs)
         else take k (c # cs) @ json_body (drop (k - 1) cs)))"

declare json_body.simps(2) [simp del]

definition json_string :: "string \<Rightarrow> string" where
  "json_string s = CHR 0x22 # json_body s @ [CHR 0x22]"

subsection \<open>Values\<close>

text \<open>
  What \<open>Encode\<close> is given, as its reflection over the Go types sees it: a nil slice or
  pointer is \<open>GNull\<close>, the fields of a struct (those of an embedded struct in its place)
  in the order of their declaration. \<open>GUnsupported\<close> stands for the values the encoder
  refuses: channels, functions, NaN.
\<close>

datatype goval =
    GNull
  | GBool bool
  | GUint u64
  | GInt int
  | GString string
  | GBytes bytes
  | GList "goval list"
  | GStruct "(string \<times> goval) list"
  | GUnsupported

fun join_commas :: "string list \<Rightarrow> string" where
  "join_commas [] = []"
| "join_commas [x] = x"
| "join_commas (x # y # xs) = x @ '','' @ join_commas (y # xs)"

definition json_int :: "int \<Rightarrow> string" where
  "json_int i = (if i < 0 then ''-'' @ decimal (nat (- i)) else decimal (nat i))"

fun json :: "goval \<Rightarrow> string" where
  "json GNull = ''null''"
| "json (GBool b) = (if b then ''true'' else ''false'')"
| "json (GUint n) = decimal (unat n)"
| "json (GInt i) = json_int i"
| "json (GString s) = json_string s"
| "json (GBytes bs) = CHR 0x22 # base64 bs @ [CHR 0x22]"
| "json (GList vs) = ''['' @ join_commas (map json vs) @ '']''"
| "json (GStruct fs) =
     ''{'' @ join_commas (map (\<lambda>(k, v). json_string k @ '':'' @ json v) fs) @ ''}''"
| "json GUnsupported = []"

fun supported :: "goval \<Rightarrow> bool" where
  "supported GUnsupported = False"
| "supported (GList vs) = list_all supported vs"
| "supported (GStruct fs) = list_all (\<lambda>(k, v). supported v) fs"
| "supported v = True"

text \<open>\<open>encode\<close> of \<open>core/utils.go\<close> (and its copy in \<open>sign/sign_tools.go\<close>).\<close>

definition encode :: "goval \<Rightarrow> error + bytes" where
  "encode data =
     (if supported data then Inr (bytes_of_string (json data @ [CHR 0x0A]))
      else Inl ErrUnsupportedType)"

text \<open>The bytes of a value the encoder accepts.\<close>

definition json_bytes :: "goval \<Rightarrow> bytes" where
  "json_bytes data = bytes_of_string (json data @ [CHR 0x0A])"

lemma encode_supported [simp]: "supported v \<Longrightarrow> encode v = Inr (json_bytes v)"
  by (simp add: encode_def json_bytes_def)

definition go_slice :: "('a \<Rightarrow> goval) \<Rightarrow> 'a slice \<Rightarrow> goval" where
  "go_slice f s = (case s of None \<Rightarrow> GNull | Some xs \<Rightarrow> GList (map f xs))"

definition go_bytes :: "gobytes \<Rightarrow> goval" where
  "go_bytes s = (case s of None \<Rightarrow> GNull | Some bs \<Rightarrow> GBytes bs)"

end
