(* ===== verification/Sign.thy ===== *)
theory Sign
  imports Go_Encoding
begin

text \<open>
  \<open>sign/sign_tools.go\<close>, the signing part. The primitives the package calls (SHA-256,
  Ed25519, the \<open>tbls\<close> and \<open>bls\<close> packages of kyber, and the VRF of the sortition) are
  the fields of a record the definitions take as an argument; the types of kyber's
  private share and public polynomial are its type parameters. Ed25519 refuses a key of
  the wrong length by a panic, as its documentation says.
\<close>

record ('ps, 'pp) crypto =
  sha256 :: "bytes \<Rightarrow> bytes"
  ed25519_Sign :: "bytes \<Rightarrow> bytes \<Rightarrow> bytes"
  ed25519_Verify :: "bytes \<Rightarrow> bytes \<Rightarrow> bytes \<Rightarrow> bool"
  tbls_Sign :: "'ps \<Rightarrow> bytes \<Rightarrow> error + bytes"
  tbls_Recover :: "'pp \<Rightarrow> bytes \<Rightarrow> gobytes list \<Rightarrow> int \<Rightarrow> int \<Rightarrow> error + bytes"
  bls_Verify :: "'pp \<Rightarrow> bytes \<Rightarrow> gobytes \<Rightarrow> error option"
  vrf_Prove :: "bytes \<Rightarrow> bytes \<Rightarrow> bytes \<Rightarrow> error + bytes \<times> bytes"

definition sign_genMsgHashSum :: "('ps, 'pp) crypto \<Rightarrow> bytes \<Rightarrow> bytes" where
  "sign_genMsgHashSum c data = sha256 c data"

definition SignEd25519 :: "('ps, 'pp) crypto \<Rightarrow> bytes \<Rightarrow> bytes \<Rightarrow> bytes outcome" where
  "SignEd25519 c priKey data =
     (let msgHashSum = sign_genMsgHashSum c data in
      if length priKey \<noteq> 64 then Panic BadKeyLength
      else Ret (ed25519_Sign c priKey msgHashSum))"

definition VerifySignEd25519 ::
  "('ps, 'pp) crypto \<Rightarrow> bytes \<Rightarrow> bytes \<Rightarrow> bytes \<Rightarrow> bool outcome" where
  "VerifySignEd25519 c publicKey data sig =
     (let msgHashSum = sign_genMsgHashSum c data in
      if length publicKey \<noteq> 32 then Panic BadKeyLength
      else Ret (ed25519_Verify c publicKey msgHashSum sig))"

definition SignTSPartial :: "('ps, 'pp) crypto \<Rightarrow> 'ps \<Rightarrow> bytes \<Rightarrow> bytes outcome" where
  "SignTSPartial c priKey data =
     (case tbls_Sign c priKey data of
        Inl err \<Rightarrow> Panic (PanicError err)
      | Inr partialSig \<Rightarrow> Ret partialSig)"

definition AssembleIntactTSPartial ::
  "('ps, 'pp) crypto \<Rightarrow> gobytes list \<Rightarrow> 'pp \<Rightarrow> bytes \<Rightarrow> int \<Rightarrow> int \<Rightarrow> bytes outcome" where
  "AssembleIntactTSPartial c partialSigs pubPoly data t n =
     (case tbls_Recover c pubPoly data partialSigs t n of
        Inl err \<Rightarrow> Panic (PanicError err)
      | Inr intactSig \<Rightarrow> Ret intactSig)"

definition VerifyTS :: "('ps, 'pp) crypto \<Rightarrow> 'pp \<Rightarrow> bytes \<Rightarrow> gobytes \<Rightarrow> error + bool" where
  "VerifyTS c pubPoly data intactSig =
     (case bls_Verify c pubPoly data intactSig of
        Some err \<Rightarrow> Inl err
      | None \<Rightarrow> Inr True)"

end
