(* ===== verification/Go_Float.thy ===== *)
theory Go_Float
  imports Complex_Main Prelude
begin

text \<open>
  The floating-point arithmetic of the program: \<open>float64\<close> division and comparison, and
  \<open>big.Float\<close> division at a given precision. A finite value is a rational; every
  operation is the exact one followed by \<open>round_float\<close>, rounding to a number of
  significant bits, to nearest, ties to even. All values of the program are zero or far
  above the subnormal range (the smallest is \<open>1 / (2 ^ 256 - 1)\<close>), so no rounding at a
  fixed exponent is needed; a magnitude of \<open>2 ^ 1024\<close> or more becomes an infinity.
\<close>

section \<open>Rounding\<close>

fun bits :: "nat \<Rightarrow> nat" where
  "bits n = (if n = 0 then 0 else Suc (bits (n div 2)))"

declare bits.simps [simp del]

lemma bits_0 [simp]: "bits 0 = 0"
  by (simp add: bits.simps)

lemma bits_bounds: "0 < n \<Longrightarrow> 2 ^ bits n \<le> 2 * n \<and> n < 2 ^ bits n"
proof (induction n rule: bits.induct)
  case (1 n)
  show ?case
  proof (cases "n div 2 = 0")
    case True
    with 1 have "n = 1" by simp
    then show ?thesis by (simp add: bits.simps [of "Suc 0"])
  next
    case False
    with 1 have "2 ^ bits (n div 2) \<le> 2 * (n div 2)" "n div 2 < 2 ^ bits (n div 2)" by auto
    with 1 show ?thesis by (subst (1 2) bits.simps) auto
  qed
qed

text \<open>The exponent of the leading bit of a positive rational.\<close>

definition ilog2 :: "rat \<Rightarrow> int" where
  "ilog2 x =
     (let (a, b) = quotient_of x; k = int (bits (nat a)) - int (bits (nat b))
      in if 2 powi k \<le> x then k else k - 1)"

definition round_half_even :: "rat \<Rightarrow> int" where
  "round_half_even y =
     (let f = \<lfloor>y\<rfloor>; d = y - of_int f in
      if d < 1/2 then f else if d > 1/2 then f + 1 else if even f then f else f + 1)"

definition round_float :: "nat \<Rightarrow> rat \<Rightarrow> rat" where
  "round_float p x =
     (if x = 0 then 0
      else let e = ilog2 \<bar>x\<bar> - (int p - 1)
           in sgn x * of_int (round_half_even (\<bar>x\<bar> / 2 powi e)) * 2 powi e)"

lemma ilog2_bounds:
  assumes "0 < x"
  shows "2 powi (ilog2 x) \<le> x" and "x < 2 powi (ilog2 x + 1)"
proof -
  obtain a b where q: "quotient_of x = (a, b)" by fastforce
  have b: "0 < b" using q by (simp add: quotient_of_denom_pos)
  have x: "x = of_int a / of_int b" using q by (rule quotient_of_div)
  with assms b have a: "0 < a" by (simp add: zero_less_divide_iff)
  define n m where "n = nat a" and "m = nat b"
  have n: "0 < n" "of_int a = (of_nat n :: rat)" and m: "0 < m" "of_int b = (of_nat m :: rat)"
    using a b by (simp_all add: n_def m_def)
  have xn: "x = of_nat n / of_nat m" using x n m by simp
  have upper: "x < 2 powi (int (bits n) - int (bits m) + 1)"
  proof -
    have "(of_nat n :: rat) < 2 ^ bits n" using bits_bounds [OF n(1)]
      by (metis of_nat_less_iff of_nat_numeral of_nat_power)
    moreover have "(2 :: rat) ^ bits m \<le> 2 * of_nat m" using bits_bounds [OF m(1)]
      by (metis of_nat_le_iff of_nat_mult of_nat_numeral of_nat_power)
    ultimately have "of_nat n * (2 :: rat) ^ bits m < 2 ^ bits n * (2 * of_nat m)"
      by (intro mult_less_le_imp_less) auto
    then show ?thesis using m(1) unfolding xn
      by (simp add: power_int_add power_int_diff field_simps)
  qed
  have lower: "2 powi (int (bits n) - int (bits m) - 1) \<le> x"
  proof -
    have "(2 :: rat) ^ bits n \<le> 2 * of_nat n" using bits_bounds [OF n(1)]
      by (metis of_nat_le_iff of_nat_mult of_nat_numeral of_nat_power)
    moreover have "(of_nat m :: rat) \<le> 2 ^ bits m" using bits_bounds [OF m(1)]
      by (metis less_imp_le of_nat_less_iff of_nat_numeral of_nat_power)
    ultimately have "of_nat m * (2 :: rat) ^ bits n \<le> 2 ^ bits m * (2 * of_nat n)"
      by (intro mult_mono) auto
    then show ?thesis using m(1) unfolding xn
      by (simp add: power_int_diff power_int_add field_simps)
  qed
  have il: "ilog2 x = (if 2 powi (int (bits n) - int (bits m)) \<le> x
      then int (bits n) - int (bits m) else int (bits n) - int (bits m) - 1)"
    by (simp add: ilog2_def q n_def m_def Let_def)
  show "2 powi (ilog2 x) \<le> x" using lower by (simp add: il)
  show "x < 2 powi (ilog2 x + 1)" using upper by (simp add: il)
qed

lemma round_half_even_cases:
  obtains "round_half_even y = \<lfloor>y\<rfloor>" "y - of_int \<lfloor>y\<rfloor> \<le> 1/2"
  | "round_half_even y = \<lfloor>y\<rfloor> + 1" "1/2 \<le> y - of_int \<lfloor>y\<rfloor>"
  unfolding round_half_even_def Let_def
  by (cases "y - of_int \<lfloor>y\<rfloor> < 1/2"; cases "1/2 < y - of_int \<lfloor>y\<rfloor>"; cases "even \<lfloor>y\<rfloor>") auto

lemma floor_gap: "of_int \<lfloor>y\<rfloor> \<le> y" "y < of_int \<lfloor>y\<rfloor> + (1 :: rat)"
  using floor_correct [of y] by simp_all

lemma round_half_even_error: "\<bar>of_int (round_half_even y) - y\<bar> \<le> 1/2"
proof (cases y rule: round_half_even_cases)
  case 1
  then show ?thesis using floor_gap [of y] by (simp add: abs_le_iff)
next
  case 2
  then show ?thesis using floor_gap [of y] by (simp add: abs_le_iff)
qed

lemma round_half_even_le: "y \<le> of_int k \<Longrightarrow> round_half_even y \<le> k"
proof -
  assume y: "y \<le> of_int k"
  then have f: "\<lfloor>y\<rfloor> \<le> k" by linarith
  show ?thesis
  proof (cases "\<lfloor>y\<rfloor> = k")
    case True
    with y have "y - of_int \<lfloor>y\<rfloor> < 1/2" by simp
    with True show ?thesis by (simp add: round_half_even_def Let_def)
  next
    case False
    with f show ?thesis by (auto simp: round_half_even_def Let_def)
  qed
qed

lemma round_half_even_ge: "of_int k \<le> y \<Longrightarrow> k \<le> round_half_even y"
proof -
  assume "of_int k \<le> y"
  then have "k \<le> \<lfloor>y\<rfloor>" by (simp add: le_floor_iff)
  then show ?thesis by (cases y rule: round_half_even_cases) auto
qed

lemma round_half_even_int [simp]: "round_half_even (of_int k) = k"
  by (simp add: round_half_even_def)

section \<open>Error of a rounding, and integers\<close>

lemma powi_2_pos [simp]: "0 < (2 :: rat) powi e"
  by (simp add: zero_less_power_int)

lemma powi_2_nonzero [simp]: "(2 :: rat) powi e \<noteq> 0"
  by simp

lemma round_float_pos_eq:
  "0 < x \<Longrightarrow> round_float p x =
     of_int (round_half_even (x / 2 powi (ilog2 x - (int p - 1)))) * 2 powi (ilog2 x - (int p - 1))"
  by (simp add: round_float_def Let_def)

lemma round_float_0 [simp]: "round_float p 0 = 0"
  by (simp add: round_float_def)

lemma round_float_error:
  assumes "0 < x"
  shows "\<bar>round_float p x - x\<bar> \<le> 2 powi (ilog2 x - (int p - 1)) / 2"
proof -
  let ?u = "2 powi (ilog2 x - (int p - 1)) :: rat"
  have "\<bar>of_int (round_half_even (x / ?u)) - x / ?u\<bar> * ?u \<le> 1/2 * ?u"
    by (intro mult_right_mono round_half_even_error) simp
  moreover have "\<bar>of_int (round_half_even (x / ?u)) - x / ?u\<bar> * ?u =
      \<bar>(of_int (round_half_even (x / ?u)) - x / ?u) * ?u\<bar>"
    by (simp add: abs_mult)
  moreover have "(of_int (round_half_even (x / ?u)) - x / ?u) * ?u = round_float p x - x"
    using assms by (simp add: round_float_pos_eq left_diff_distrib)
  ultimately show ?thesis by simp
qed

lemma powi_2_less_imp: "(2 :: rat) powi m < 2 powi n \<Longrightarrow> m < n"
  by (metis not_less power_int_increasing one_le_numeral zero_neq_numeral)

lemma ilog2_less: "0 < x \<Longrightarrow> x < 2 powi k \<Longrightarrow> ilog2 x < k"
proof -
  assume x: "0 < x" "x < 2 powi k"
  then have "2 powi ilog2 x < (2 :: rat) powi k" using ilog2_bounds(1) [of x] by linarith
  then show ?thesis by (rule powi_2_less_imp)
qed

lemma ilog2_ge: "2 powi k \<le> x \<Longrightarrow> k \<le> ilog2 x"
proof -
  assume x: "2 powi k \<le> x"
  then have "0 < x" using powi_2_pos [of k] by linarith
  then have "(2 :: rat) powi k < 2 powi (ilog2 x + 1)" using x ilog2_bounds(2) [of x] by linarith
  then have "k < ilog2 x + 1" by (rule powi_2_less_imp)
  then show ?thesis by simp
qed

text \<open>An integer below the precision is a multiple of the unit of any smaller value.\<close>

lemma int_over_unit:
  assumes "e \<le> 0"
  shows "of_int m / (2 :: rat) powi e = of_int (m * 2 ^ nat (- e))"
  using assms by (simp add: power_int_def field_simps)

lemma round_float_le_int:
  assumes x: "0 < x" "x \<le> of_int m" and m: "x < 2 ^ p"
  shows "round_float p x \<le> of_int m"
proof -
  let ?e = "ilog2 x - (int p - 1)"
  have "ilog2 x < int p" using x(1) m ilog2_less [of x "int p"] by simp
  then have e: "?e \<le> 0" by simp
  have "x / 2 powi ?e \<le> of_int m / 2 powi ?e" using x by (simp add: divide_right_mono)
  then have "x / 2 powi ?e \<le> of_int (m * 2 ^ nat (- ?e))"
    using int_over_unit [OF e, of m] by simp
  then have "round_half_even (x / 2 powi ?e) \<le> m * 2 ^ nat (- ?e)"
    by (rule round_half_even_le)
  then have "of_int (round_half_even (x / 2 powi ?e)) \<le> (of_int m / 2 powi ?e :: rat)"
    using int_over_unit [OF e, of m] by (simp only: of_int_le_iff)
  then have "of_int (round_half_even (x / 2 powi ?e)) * 2 powi ?e \<le> (of_int m :: rat)"
    by (simp add: pos_le_divide_eq)
  then show ?thesis using x(1) by (simp add: round_float_pos_eq)
qed

lemma round_float_ge_int:
  assumes x: "0 < x" "of_int m \<le> x" and m: "x < 2 ^ p"
  shows "of_int m \<le> round_float p x"
proof -
  let ?e = "ilog2 x - (int p - 1)"
  have "ilog2 x < int p" using x(1) m ilog2_less [of x "int p"] by simp
  then have e: "?e \<le> 0" by simp
  have "of_int m / 2 powi ?e \<le> x / 2 powi ?e" using x by (simp add: divide_right_mono)
  then have "of_int (m * 2 ^ nat (- ?e)) \<le> x / 2 powi ?e"
    using int_over_unit [OF e, of m] by simp
  then have "m * 2 ^ nat (- ?e) \<le> round_half_even (x / 2 powi ?e)"
    by (rule round_half_even_ge)
  then have "(of_int m / 2 powi ?e :: rat) \<le> of_int (round_half_even (x / 2 powi ?e))"
    using int_over_unit [OF e, of m] by (simp only: of_int_le_iff)
  then have "(of_int m :: rat) \<le> of_int (round_half_even (x / 2 powi ?e)) * 2 powi ?e"
    by (simp add: pos_divide_le_eq)
  then show ?thesis using x(1) by (simp add: round_float_pos_eq)
qed

lemma round_float_int:
  assumes "0 \<le> m" and "m < 2 ^ p"
  shows "round_float p (of_int m) = of_int m"
proof (cases "m = 0")
  case False
  have "(of_int m :: rat) < of_int (2 ^ p)" using assms(2) by (simp only: of_int_less_iff)
  moreover have "(0 :: rat) < of_int m" using False assms(1) by simp
  ultimately have "(0 :: rat) < of_int m" "of_int m < (2 :: rat) ^ p" by simp_all
  then show ?thesis
    by (intro antisym round_float_le_int round_float_ge_int) simp_all
qed simp

text \<open>A rounding never drops below the leading power of two.\<close>

lemma round_float_ge_power:
  assumes x: "0 < x" and p: "0 < p"
  shows "2 powi ilog2 x \<le> round_float p x"
proof -
  let ?e = "ilog2 x - (int p - 1)"
  have "of_int (2 ^ (p - 1)) * 2 powi ?e = (2 :: rat) powi (int (p - 1) + ?e)"
    by (simp add: power_int_add)
  also have "int (p - 1) + ?e = ilog2 x" using p by simp
  finally have lead: "of_int (2 ^ (p - 1)) * 2 powi ?e = (2 :: rat) powi ilog2 x" .
  then have "of_int (2 ^ (p - 1)) \<le> x / 2 powi ?e"
    using ilog2_bounds(1) [OF x] by (simp add: pos_le_divide_eq del: of_int_power)
  then have "2 ^ (p - 1) \<le> round_half_even (x / 2 powi ?e)"
    by (rule round_half_even_ge)
  then have "(of_int (2 ^ (p - 1)) :: rat) \<le> of_int (round_half_even (x / 2 powi ?e))"
    by (simp only: of_int_le_iff)
  then have "(of_int (2 ^ (p - 1)) :: rat) * 2 powi ?e \<le> of_int (round_half_even (x / 2 powi ?e)) * 2 powi ?e"
    by (intro mult_right_mono) simp_all
  then show ?thesis using lead unfolding round_float_pos_eq [OF x] by (simp only:)
qed

section \<open>float64\<close>

datatype float64 = Fin rat | PInf | NInf | NaN

text \<open>Comparison: a NaN is below nothing.\<close>

instantiation float64 :: ord
begin

fun less_float64 :: "float64 \<Rightarrow> float64 \<Rightarrow> bool" where
  "Fin x < Fin y \<longleftrightarrow> x < y"
| "NInf < Fin y \<longleftrightarrow> True"
| "NInf < PInf \<longleftrightarrow> True"
| "Fin x < PInf \<longleftrightarrow> True"
| "(_ :: float64) < _ \<longleftrightarrow> False"

definition less_eq_float64 :: "float64 \<Rightarrow> float64 \<Rightarrow> bool" where
  "x \<le> y \<longleftrightarrow> x < y \<or> (x = y \<and> x \<noteq> (NaN :: float64))"

instance ..

end

text \<open>Rounding an exact result to a \<open>float64\<close>.\<close>

definition to_float64 :: "rat \<Rightarrow> float64" where
  "to_float64 x =
     (let r = round_float 53 x in
      if 2 ^ 1024 \<le> r then PInf else if r \<le> - (2 ^ 1024) then NInf else Fin r)"

text \<open>\<open>float64(i)\<close> for an integer, and division of two finite values.\<close>

definition float64_of_int :: "int \<Rightarrow> float64" where
  "float64_of_int i = to_float64 (of_int i)"

fun float64_div :: "float64 \<Rightarrow> float64 \<Rightarrow> float64" where
  "float64_div (Fin x) (Fin y) =
     (if y = 0 then (if x = 0 then NaN else if 0 < x then PInf else NInf)
      else to_float64 (x / y))"
| "float64_div (Fin x) PInf = Fin 0"
| "float64_div (Fin x) NInf = Fin 0"
| "float64_div PInf (Fin y) = (if y < 0 then NInf else PInf)"
| "float64_div NInf (Fin y) = (if y < 0 then PInf else NInf)"
| "float64_div _ _ = NaN"

text \<open>\<open>int(math.Ceil(x))\<close>; outside the range of \<open>int\<close> the conversion is not specified by Go.\<close>

fun int_ceil :: "float64 \<Rightarrow> int" where
  "int_ceil (Fin x) = \<lceil>x\<rceil>"
| "int_ceil _ = 0"

end
