(* ===== verification/Config.thy ===== *)
theory Config
  imports Sign Go_Float
begin

text \<open>
  The configuration a node is created from: \<open>Config\<close> and \<open>New\<close> of \<open>config/config.go\<close>.
\<close>

record ('ps, 'pp) Config =
  conf_Name :: string
  conf_MaxPool :: int
  conf_ListenPort :: int
  conf_P2PListenPort :: int
  conf_RPCListenPort :: int
  conf_AddrStr :: string
  conf_ClusterAddr :: "(string, string) fmap"
  conf_ClusterPort :: "(string, int) fmap"
  conf_PublicKeyMap :: "(string, bytes) fmap"
  conf_PrivateKey :: bytes
  conf_TsPublicKey :: 'pp
  conf_TsPrivateKey :: 'ps
  conf_Probability :: float64
  conf_SortitionEnabled :: bool
  conf_LogLevel :: int
  conf_CanProposeBlock :: bool

definition config_New ::
  "string \<Rightarrow> int \<Rightarrow> string \<Rightarrow> (string, string) fmap \<Rightarrow> (string, int) fmap \<Rightarrow>
   (string, bytes) fmap \<Rightarrow> bytes \<Rightarrow> 'pp \<Rightarrow> 'ps \<Rightarrow> float64 \<Rightarrow> bool \<Rightarrow> int \<Rightarrow> int \<Rightarrow> int \<Rightarrow> bool \<Rightarrow>
   ('ps, 'pp) Config" where
  "config_New name maxPool addrStr clusterAddr clusterPort publicKeyMap privateKey tsPublicKey
     tsPrivateKey probability sortitionEnabled p2PListenPort rPCListenPort logLevel
     canProposeBlock =
   \<lparr>conf_Name = name, conf_MaxPool = maxPool, conf_ListenPort = 0,
    conf_P2PListenPort = p2PListenPort, conf_RPCListenPort = rPCListenPort,
    conf_AddrStr = addrStr, conf_ClusterAddr = clusterAddr, conf_ClusterPort = clusterPort,
    conf_PublicKeyMap = publicKeyMap, conf_PrivateKey = privateKey,
    conf_TsPublicKey = tsPublicKey, conf_TsPrivateKey = tsPrivateKey,
    conf_Probability = probability, conf_SortitionEnabled = sortitionEnabled,
    conf_LogLevel = logLevel, conf_CanProposeBlock = canProposeBlock\<rparr>"

end
