(* ===== verification/Go_JSON.thy ===== *)
theory Go_JSON
  imports Go_Encoding
begin

text \<open>
  What the program uses of \<open>encoding/json\<close>'s decoder, the body of \<open>decode\<close> in
  \<open>core/utils.go\<close> and \<open>sign/sign_tools.go\<close>: a value is parsed from the front of the
  input, the object's members are matched with a struct's fields without regard to case,
  and a member of the wrong type is an error. All its errors are \<open>ErrJSON\<close>, since no code
  of the program tells them apart. Unknown members are ignored and \<open>null\<close> leaves a field
  as it is.
\<close>

section \<open>Values and their grammar\<close>

datatype jval =
    JNull
  | JBool bool
  | JNumber string
  | JString string
  | JArray "jval list"
  | JObject "(string \<times> jval) list"

definition is_space :: "char \<Rightarrow> bool" where
  "is_space c \<longleftrightarrow> c \<in> {CHR 0x20, CHR 0x09, CHR 0x0A, CHR 0x0D}"

abbreviation skip_space :: "string \<Rightarrow> string" where "skip_space \<equiv> dropWhile is_space"

subsection \<open>Strings\<close>

definition utf8_encode :: "nat \<Rightarrow> string" where
  "utf8_encode r = map char_of
     (if r < 128 then [r]
      else if r < 2048 then [192 + r div 64, 128 + r mod 64]
      else if r < 65536 then [224 + r div 4096, 128 + r div 64 mod 64, 128 + r mod 64]
      else [240 + r div 262144, 128 + r div 4096 mod 64, 128 + r div 64 mod 64, 128 + r mod 64])"

definition hex4 :: "string \<Rightarrow> nat option" where
  "hex4 s = (case map fromHexChar (take 4 s) of
     [Some a, Some b, Some c, Some d] \<Rightarrow> Some (((a * 16 + b) * 16 + c) * 16 + d)
   | _ \<Rightarrow> None)"

text \<open>The low half of a surrogate pair, written as a second escape.\<close>

definition low_surrogate :: "string \<Rightarrow> nat option" where
  "low_surrogate s = (case s of
     c # d # s' \<Rightarrow> if c = CHR 0x5C \<and> d = CHR ''u'' then
         (case hex4 s' of Some r \<Rightarrow> if 0xDC00 \<le> r \<and> r < 0xE000 then Some r else None | None \<Rightarrow> None)
       else None
   | _ \<Rightarrow> None)"

definition simple_escape :: "char \<Rightarrow> char option" where
  "simple_escape c =
     (if c \<in> {CHR 0x22, CHR 0x5C, CHR ''/''} then Some c
      else map_of [(CHR ''b'', CHR 0x08), (CHR ''f'', CHR 0x0C), (CHR ''n'', CHR 0x0A),
                   (CHR ''r'', CHR 0x0D), (CHR ''t'', CHR 0x09)] c)"

text \<open>The rest of a string after its opening quote: what it denotes and what follows it.\<close>

fun parse_chars :: "nat \<Rightarrow> string \<Rightarrow> (string \<times> string) option" where
  "parse_chars 0 s = None"
| "parse_chars (Suc f) [] = None"
| "parse_chars (Suc f) (c # s) =
     (let n = of_char c :: nat; more = (\<lambda>p s'. map_option (apfst ((@) p)) (parse_chars f s')) in
      if c = CHR 0x22 then Some ([], s)
      else if n < 32 then None
      else if c = CHR 0x5C then
        (case s of
           [] \<Rightarrow> None
         | d # s' \<Rightarrow>
             if d = CHR ''u'' then
               (case hex4 s' of
                  None \<Rightarrow> None
                | Some r \<Rightarrow>
                    if 0xD800 \<le> r \<and> r < 0xE000 then
                      (case (if r < 0xDC00 then low_surrogate (drop 4 s') else None) of
                         Some l \<Rightarrow> more (utf8_encode (0x10000 + (r - 0xD800) * 1024 + (l - 0xDC00))) (drop 10 s')
                       | None \<Rightarrow> more (utf8_encode 0xFFFD) (drop 4 s'))
                    else more (utf8_encode r) (drop 4 s'))
             else (case simple_escape d of None \<Rightarrow> None | Some e \<Rightarrow> more [e] s'))
      else if n < 128 then more [c] s
      else
        (let k = utf8_size (map of_char (c # s)) in
         if k = 0 then more (utf8_encode 0xFFFD) s
         else more (take k (c # s)) (drop (k - 1) s)))"

subsection \<open>Numbers\<close>

definition digits :: "string \<Rightarrow> string \<times> string" where
  "digits s = (takeWhile is_digit s, dropWhile is_digit s)"

definition parse_frac :: "string \<Rightarrow> (string \<times> string) option" where
  "parse_frac s = (case s of
     c # s' \<Rightarrow> if c = CHR ''.'' then
         (case digits s' of (ds, r) \<Rightarrow> if ds = [] then None else Some (c # ds, r))
       else Some ([], s)
   | [] \<Rightarrow> Some ([], s))"

definition parse_exp :: "string \<Rightarrow> (string \<times> string) option" where
  "parse_exp s = (case s of
     c # s' \<Rightarrow> if c = CHR ''e'' \<or> c = CHR ''E'' then
         (let (sg, s2) = (case s' of d # s3 \<Rightarrow> if d = CHR ''+'' \<or> d = CHR ''-'' then ([d], s3) else ([], s')
                          | [] \<Rightarrow> ([], s')) in
          case digits s2 of (ds, r) \<Rightarrow> if ds = [] then None else Some (c # sg @ ds, r))
       else Some ([], s)
   | [] \<Rightarrow> Some ([], s))"

definition parse_number :: "string \<Rightarrow> (string \<times> string) option" where
  "parse_number s =
     (let (sg, s1) = (case s of c # s' \<Rightarrow> if c = CHR ''-'' then ([c], s') else ([], s) | [] \<Rightarrow> ([], s)) in
      case (case s1 of
              c # s' \<Rightarrow> if c = CHR ''0'' then Some ([c], s')
                       else (case digits s1 of (ds, r) \<Rightarrow> if ds = [] then None else Some (ds, r))
            | [] \<Rightarrow> None) of
        None \<Rightarrow> None
      | Some (ip, s2) \<Rightarrow>
          (case parse_frac s2 of None \<Rightarrow> None | Some (fp, s3) \<Rightarrow>
           (case parse_exp s3 of None \<Rightarrow> None | Some (ep, s4) \<Rightarrow> Some (sg @ ip @ fp @ ep, s4))))"

subsection \<open>Values\<close>

definition keyword :: "string \<Rightarrow> jval \<Rightarrow> string \<Rightarrow> (jval \<times> string) option" where
  "keyword w v s = (if take (length w) s = w then Some (v, drop (length w) s) else None)"

text \<open>
  The fuel bounds the depth of the calls. A level of nesting takes two of it and at least two
  characters, its brackets; an element or a member takes one and at least one character.
\<close>

fun parse_value :: "nat \<Rightarrow> string \<Rightarrow> (jval \<times> string) option"
  and parse_elems :: "nat \<Rightarrow> string \<Rightarrow> (jval list \<times> string) option"
  and parse_members :: "nat \<Rightarrow> string \<Rightarrow> ((string \<times> jval) list \<times> string) option" where
  "parse_value 0 s = None"
| "parse_value (Suc f) s =
     (case skip_space s of
        [] \<Rightarrow> None
      | c # s' \<Rightarrow>
          if c = CHR 0x22 then map_option (apfst JString) (parse_chars (length s' + 1) s')
          else if c = CHR 0x5B then
            (case skip_space s' of
               d # r \<Rightarrow> if d = CHR 0x5D then Some (JArray [], r) else map_option (apfst JArray) (parse_elems f s')
             | [] \<Rightarrow> None)
          else if c = CHR 0x7B then
            (case skip_space s' of
               d # r \<Rightarrow> if d = CHR 0x7D then Some (JObject [], r) else map_option (apfst JObject) (parse_members f s')
             | [] \<Rightarrow> None)
          else if c = CHR ''n'' then keyword ''null'' JNull (c # s')
          else if c = CHR ''t'' then keyword ''true'' (JBool True) (c # s')
          else if c = CHR ''f'' then keyword ''false'' (JBool False) (c # s')
          else map_option (apfst JNumber) (parse_number (c # s')))"
| "parse_elems 0 s = None"
| "parse_elems (Suc f) s =
     (case parse_value f s of
        None \<Rightarrow> None
      | Some (v, r) \<Rightarrow>
          (case skip_space r of
             c # r' \<Rightarrow> if c = CHR 0x5D then Some ([v], r')
                      else if c = CHR '','' then map_option (apfst ((#) v)) (parse_elems f r')
                      else None
           | [] \<Rightarrow> None))"
| "parse_members 0 s = None"
| "parse_members (Suc f) s =
     (case skip_space s of
        c # s' \<Rightarrow> if c \<noteq> CHR 0x22 then None else
          (case parse_chars (length s' + 1) s' of
             None \<Rightarrow> None
           | Some (k, r) \<Rightarrow>
               (case skip_space r of
                  d # r' \<Rightarrow> if d \<noteq> CHR '':'' then None else
                    (case parse_value f r' of
                       None \<Rightarrow> None
                     | Some (v, t) \<Rightarrow>
                         (case skip_space t of
                            e # t' \<Rightarrow> if e = CHR 0x7D then Some ([(k, v)], t')
                                     else if e = CHR '','' then map_option (apfst ((#) (k, v))) (parse_members f t')
                                     else None
                          | [] \<Rightarrow> None))
                | [] \<Rightarrow> None))
      | [] \<Rightarrow> None)"

text \<open>\<open>Decoder.Decode\<close>, up to the storing: the next value of the input. A number at the very
  end of the input is complete there.\<close>

definition json_Decode :: "bytes \<Rightarrow> error + jval" where
  "json_Decode bs =
     (let s = string_of_bytes bs in
      case parse_value (length s + 1) s of
        None \<Rightarrow> Inl ErrJSON
      | Some (v, r) \<Rightarrow> Inr v)"

section \<open>Storing into a struct's fields\<close>

definition lower :: "char \<Rightarrow> char" where
  "lower c = (let n = of_char c :: nat in if 65 \<le> n \<and> n \<le> 90 then char_of (n + 32) else c)"

text \<open>Names are matched by Unicode case folding; of the letters beyond ASCII only the long s
  and the Kelvin sign fold to an ASCII letter.\<close>

fun fold_name :: "string \<Rightarrow> string" where
  "fold_name [] = []"
| "fold_name [c] = [lower c]"
| "fold_name (c # d # s) =
     (if [c, d] = [CHR 0xC5, CHR 0xBF] then CHR ''s'' # fold_name s
      else if [c, d] @ take 1 s = [CHR 0xE2, CHR 0x84, CHR 0xAA] then CHR ''k'' # fold_name (drop 1 s)
      else lower c # fold_name (d # s))"

text \<open>The members that go to a field, in their order: each is stored over what was there.\<close>

definition members_of :: "(string \<times> jval) list \<Rightarrow> string \<Rightarrow> jval list" where
  "members_of ms field = map snd (filter (\<lambda>(k, v). fold_name k = fold_name field) ms)"

fun store_all :: "(jval \<Rightarrow> 'a \<Rightarrow> error + 'a) \<Rightarrow> jval list \<Rightarrow> 'a \<Rightarrow> error + 'a" where
  "store_all st [] x = Inr x"
| "store_all st (v # vs) x = (case st v x of Inl e \<Rightarrow> Inl e | Inr y \<Rightarrow> store_all st vs y)"

definition int_of_number :: "string \<Rightarrow> int option" where
  "int_of_number s =
     (let (neg, ds) = (case s of c # s' \<Rightarrow> if c = CHR ''-'' then (True, s') else (False, s) | [] \<Rightarrow> (False, s));
          i = (if neg then - int (dec_value ds) else int (dec_value ds)) in
      if ds \<noteq> [] \<and> list_all is_digit ds \<and> - (2 ^ 63) \<le> i \<and> i < 2 ^ 63 then Some i else None)"

definition store_int :: "jval \<Rightarrow> int \<Rightarrow> error + int" where
  "store_int v x =
     (case v of
        JNull \<Rightarrow> Inr x
      | JNumber s \<Rightarrow> (case int_of_number s of Some i \<Rightarrow> Inr i | None \<Rightarrow> Inl ErrJSON)
      | _ \<Rightarrow> Inl ErrJSON)"

text \<open>\<open>base64.StdEncoding\<close>: line breaks are skipped, the padding is required.\<close>

definition b64_index :: "char \<Rightarrow> nat option" where
  "b64_index c = (if c \<in> set b64_alphabet then Some (b64_value c) else None)"

fun b64_quads :: "string \<Rightarrow> bytes option" where
  "b64_quads [] = Some []"
| "b64_quads (p # q # r # s # rest) =
     (case (b64_index p, b64_index q) of
        (Some x, Some y) \<Rightarrow>
          if r = CHR ''='' then
            (if s = CHR ''='' \<and> rest = [] then Some [byte_of_nat (x * 4 + y div 16)] else None)
          else
            (case b64_index r of
               None \<Rightarrow> None
             | Some z \<Rightarrow>
                 if s = CHR ''='' then
                   (if rest = [] then Some [byte_of_nat (x * 4 + y div 16), byte_of_nat (y mod 16 * 16 + z div 4)]
                    else None)
                 else
                   (case b64_index s of
                      None \<Rightarrow> None
                    | Some w \<Rightarrow>
                        map_option (\<lambda>bs. byte_of_nat (x * 4 + y div 16) # byte_of_nat (y mod 16 * 16 + z div 4) #
                          byte_of_nat (z mod 4 * 64 + w) # bs) (b64_quads rest)))
      | _ \<Rightarrow> None)"
| "b64_quads _ = None"

definition b64_DecodeString :: "string \<Rightarrow> bytes option" where
  "b64_DecodeString s = b64_quads (filter (\<lambda>c. c \<noteq> CHR 0x0A \<and> c \<noteq> CHR 0x0D) s)"

definition store_u8 :: "jval \<Rightarrow> error + u8" where
  "store_u8 v =
     (case v of
        JNull \<Rightarrow> Inr 0
      | JNumber s \<Rightarrow>
          (case int_of_number s of
             Some i \<Rightarrow> if 0 \<le> i \<and> i < 256 \<and> hd s \<noteq> CHR ''-'' then Inr (word_of_int i) else Inl ErrJSON
           | None \<Rightarrow> Inl ErrJSON)
      | _ \<Rightarrow> Inl ErrJSON)"

fun map_result :: "('a \<Rightarrow> error + 'b) \<Rightarrow> 'a list \<Rightarrow> error + 'b list" where
  "map_result f [] = Inr []"
| "map_result f (x # xs) =
     (case f x of Inl e \<Rightarrow> Inl e
      | Inr y \<Rightarrow> (case map_result f xs of Inl e \<Rightarrow> Inl e | Inr ys \<Rightarrow> Inr (y # ys)))"

definition store_bytes :: "jval \<Rightarrow> gobytes \<Rightarrow> error + gobytes" where
  "store_bytes v x =
     (case v of
        JNull \<Rightarrow> Inr None
      | JString s \<Rightarrow> (case b64_DecodeString s of Some bs \<Rightarrow> Inr (Some bs) | None \<Rightarrow> Inl ErrJSON)
      | JArray vs \<Rightarrow> map_sum id Some (map_result store_u8 vs)
      | _ \<Rightarrow> Inl ErrJSON)"

definition store_bytes_list :: "jval \<Rightarrow> gobytes slice \<Rightarrow> error + gobytes slice" where
  "store_bytes_list v x =
     (case v of
        JNull \<Rightarrow> Inr None
      | JArray vs \<Rightarrow> map_sum id Some (map_result (\<lambda>v. store_bytes v None) vs)
      | _ \<Rightarrow> Inl ErrJSON)"

end
