(* ===== verification/Go_JSON_Roundtrip.thy ===== *)
theory Go_JSON_Roundtrip
  imports Go_JSON
begin

text \<open>
  The decoder of \<open>Go_JSON\<close> reads back what the encoder of \<open>Go_Encoding\<close> writes, for values
  whose strings need no escape: the hex and base64 strings, numbers and field names of the
  program's keys and messages. With it come the facts on the stored fields: numbers of the
  \<open>int64\<close> range and byte slices survive.
\<close>

section \<open>What the encoder writes is parsed\<close>

text \<open>Strings that are written without an escape.\<close>

definition plain :: "string \<Rightarrow> bool" where
  "plain s \<longleftrightarrow> list_all (\<lambda>c. json_safe (of_char c)) s"

lemma plain_simps [simp]: "plain []" "plain (c # s) \<longleftrightarrow> json_safe (of_char c) \<and> plain s"
  "plain (s @ t) \<longleftrightarrow> plain s \<and> plain t"
  by (simp_all add: plain_def)

lemma json_body_plain [simp]: "plain s \<Longrightarrow> json_body s = s"
  by (induction s) (simp_all add: json_body.simps(2) json_safe_def)

lemma parse_chars_plain [simp]:
  "plain s \<Longrightarrow> length s < f \<Longrightarrow> parse_chars f (s @ CHR 0x22 # rest) = Some (s, rest)"
proof (induction s arbitrary: f)
  case Nil
  then show ?case by (cases f) simp_all
next
  case (Cons c s)
  from Cons.prems obtain f' where f: "f = Suc f'" "length s < f'" by (cases f) auto
  from Cons.prems have c: "32 \<le> (of_char c :: nat)" "(of_char c :: nat) < 128"
    "(of_char c :: nat) \<noteq> 34" "(of_char c :: nat) \<noteq> 92"
    by (simp_all add: json_safe_def)
  have "c \<noteq> CHR 0x22" "c \<noteq> CHR 0x5C" using c(3,4) by auto
  with c Cons f show ?case by simp
qed

lemma json_string_plain: "plain s \<Longrightarrow> json_string s = CHR 0x22 # s @ [CHR 0x22]"
  by (simp add: json_string_def)

fun jval_of :: "goval \<Rightarrow> jval" where
  "jval_of GNull = JNull"
| "jval_of (GBool b) = JBool b"
| "jval_of (GUint n) = JNumber (decimal (unat n))"
| "jval_of (GInt i) = JNumber (json_int i)"
| "jval_of (GString s) = JString s"
| "jval_of (GBytes bs) = JString (base64 bs)"
| "jval_of (GList vs) = JArray (map jval_of vs)"
| "jval_of (GStruct fs) = JObject (map (\<lambda>(k, v). (k, jval_of v)) fs)"
| "jval_of GUnsupported = JNull"

fun plain_val :: "goval \<Rightarrow> bool" where
  "plain_val (GString s) = plain s"
| "plain_val (GList vs) = list_all plain_val vs"
| "plain_val (GStruct fs) = list_all (\<lambda>(k, v). plain k \<and> plain_val v) fs"
| "plain_val GUnsupported = False"
| "plain_val v = True"

text \<open>The calls a value takes.\<close>

fun need :: "goval \<Rightarrow> nat" where
  "need (GList vs) = Suc (foldr (\<lambda>n m. Suc (max n m)) (map need vs) 0)"
| "need (GStruct fs) = Suc (foldr (\<lambda>n m. Suc (max n m)) (map (\<lambda>(k, v). need v) fs) 0)"
| "need v = 1"

lemma need_pos: "0 < need v"
  by (cases v) simp_all

text \<open>What may follow a number.\<close>

definition stops :: "string \<Rightarrow> bool" where
  "stops s = (case s of [] \<Rightarrow> True | c # _ \<Rightarrow> c \<in> {CHR '','', CHR 0x5D, CHR 0x7D, CHR 0x0A})"

lemma stops_simps [simp]:
  "stops []" "stops (CHR '','' # s)" "stops (CHR 0x5D # s)" "stops (CHR 0x7D # s)" "stops (CHR 0x0A # s)"
  by (simp_all add: stops_def)

lemma digits_stop:
  assumes "list_all is_digit ds" "stops rest"
  shows "digits (ds @ rest) = (ds, rest)"
proof -
  have "takeWhile is_digit rest = [] \<and> dropWhile is_digit rest = rest"
    using assms(2) by (cases rest) (auto simp: stops_def is_digit_def)
  moreover have "\<forall>c \<in> set ds. is_digit c" using assms(1) by (simp add: list_all_iff)
  ultimately show ?thesis by (simp add: digits_def takeWhile_append dropWhile_append)
qed

lemma tail_stops: "stops rest \<Longrightarrow> parse_frac rest = Some ([], rest)" "stops rest \<Longrightarrow> parse_exp rest = Some ([], rest)"
  by (cases rest; auto simp: stops_def parse_frac_def parse_exp_def)+

lemma decimal_head: "decimal n = CHR ''0'' # s \<Longrightarrow> s = [] \<and> n = 0"
proof (induction n arbitrary: s rule: decimal.induct)
  case (1 n)
  show ?case
  proof (cases "n < 10")
    case True
    have "of_char (dec_digit n) - (48 :: nat) = n" using dec_digit_props [OF True] by simp
    with "1.prems" True show ?thesis by (subst (asm) decimal.simps) auto
  next
    case False
    with "1.prems" have "decimal (n div 10) @ [dec_digit (n mod 10)] = CHR ''0'' # s"
      by (subst (asm) decimal.simps) simp
    then obtain s' where "decimal (n div 10) = CHR ''0'' # s'" by (cases "decimal (n div 10)") auto
    with "1.IH" [OF False] False show ?thesis by auto
  qed
qed

lemma decimal_first: "\<exists>c s. decimal n = c # s \<and> is_digit c"
  using decimal_digits [of n] by (cases "decimal n") auto

lemma parse_number_nat:
  "stops rest \<Longrightarrow> parse_number (decimal n @ rest) = Some (decimal n, rest)"
proof -
  assume r: "stops rest"
  obtain c s where d: "decimal n = c # s" "is_digit c" using decimal_first by blast
  have minus: "c \<noteq> CHR ''-''" using d(2) by (auto simp: is_digit_def)
  note ds = digits_stop [OF decimal_digits [of n] r]
  show ?thesis
  proof (cases "c = CHR ''0''")
    case True
    with d decimal_head [of n s] r show ?thesis
      by (simp add: parse_number_def tail_stops)
  next
    case False
    with d minus ds r show ?thesis by (simp add: parse_number_def tail_stops)
  qed
qed

lemma parse_number_int:
  "stops rest \<Longrightarrow> parse_number (json_int i @ rest) = Some (json_int i, rest)"
proof -
  assume r: "stops rest"
  show ?thesis
  proof (cases "i < 0")
    case False
    with r show ?thesis by (simp add: json_int_def parse_number_nat)
  next
    case True
    then have e: "json_int i = CHR ''-'' # decimal (nat (- i))" by (simp add: json_int_def)
    obtain c s where d: "decimal (nat (- i)) = c # s" "is_digit c" using decimal_first by blast
    have "c \<noteq> CHR ''-''" using d(2) by (auto simp: is_digit_def)
    then have "parse_number (CHR ''-'' # decimal (nat (- i)) @ rest) =
        map_option (apfst ((#) CHR ''-'')) (parse_number (decimal (nat (- i)) @ rest))"
      unfolding d parse_number_def by (auto simp: Let_def split: option.splits prod.splits)
    with e r show ?thesis by (simp add: parse_number_nat)
  qed
qed

lemma spaces [simp]: "is_space CHR 0x20" "\<not> is_space CHR 0x22" "\<not> is_space CHR 0x5B" "\<not> is_space CHR 0x7B"
  "\<not> is_space CHR 0x5D" "\<not> is_space CHR 0x7D" "\<not> is_space CHR '',''" "\<not> is_space CHR '':''"
  "\<not> is_space CHR ''n''" "\<not> is_space CHR ''t''" "\<not> is_space CHR ''f''" "\<not> is_space CHR ''-''"
  by (simp_all add: is_space_def)

lemma digit_chars:
  "is_digit c \<Longrightarrow> \<not> is_space c \<and> c \<notin> {CHR 0x22, CHR 0x5B, CHR 0x7B, CHR 0x5D, CHR 0x7D, CHR ''n'', CHR ''t'', CHR ''f''}"
  by (auto simp: is_digit_def is_space_def)

lemma json_int_first: "\<exists>c s. json_int i = c # s \<and> (is_digit c \<or> c = CHR ''-'')"
  using decimal_first [of "nat i"] by (auto simp: json_int_def)

lemma json_first:
  assumes "plain_val v"
  obtains c s where "json v = c # s" "\<not> is_space c" "c \<noteq> CHR 0x5D" "c \<noteq> CHR 0x7D"
proof (cases v)
  case (GInt i)
  obtain c s where "json_int i = c # s" "is_digit c \<or> c = CHR ''-''" using json_int_first by blast
  with GInt digit_chars [of c] that show ?thesis by auto
next
  case (GUint n)
  obtain c s where "decimal (unat n) = c # s" "is_digit c" using decimal_first by blast
  with GUint digit_chars [of c] that show ?thesis by auto
next
  case (GBool b)
  with that show ?thesis by (cases b) simp_all
qed (use assms that in \<open>auto simp: json_string_def\<close>)

lemma b64_digit_safe [simp]:
  assumes "n < 64"
  shows "json_safe (of_char (b64_digit n))"
proof -
  have "list_all (\<lambda>c. json_safe (of_char c)) b64_alphabet"
    by (simp add: b64_alphabet_def json_safe_def)
  moreover have "n < length b64_alphabet" using assms by (simp only: length_b64_alphabet)
  ultimately show ?thesis unfolding b64_digit_def list_all_length by blast
qed

lemma pad_safe [simp]: "json_safe 61"
  by (simp add: json_safe_def)

lemma base64_plain [simp]: "plain (base64 bs)"
  by (induction bs rule: base64.induct) (simp_all add: b64_arith)

lemma parse_value_int:
  "stops rest \<Longrightarrow> 0 < f \<Longrightarrow> parse_value f (json_int i @ rest) = Some (JNumber (json_int i), rest)"
proof -
  assume r: "stops rest" "0 < f"
  obtain c s where d: "json_int i = c # s" "is_digit c \<or> c = CHR ''-''" using json_int_first by blast
  from r obtain f' where f: "f = Suc f'" by (cases f) auto
  from d digit_chars [of c] have "\<not> is_space c" "c \<notin> {CHR 0x22, CHR 0x5B, CHR 0x7B, CHR ''n'', CHR ''t'', CHR ''f''}"
    by auto
  with d(1) parse_number_int [OF r(1), of i] show ?thesis unfolding f by simp
qed

lemma parse_value_string:
  "plain s \<Longrightarrow> 0 < f \<Longrightarrow> parse_value f (CHR 0x22 # s @ CHR 0x22 # rest) = Some (JString s, rest)"
  by (cases f) simp_all

lemma parse_elems_json:
  assumes "vs \<noteq> []" "list_all plain_val vs"
    and "\<And>v f rest. v \<in> set vs \<Longrightarrow> need v \<le> f \<Longrightarrow> stops rest \<Longrightarrow>
      parse_value f (json v @ rest) = Some (jval_of v, rest)"
    and "foldr (\<lambda>n m. Suc (max n m)) (map need vs) 0 \<le> f"
  shows "parse_elems f (join_commas (map json vs) @ CHR 0x5D # rest) = Some (map jval_of vs, rest)"
  using assms
proof (induction vs arbitrary: f)
  case (Cons v vs)
  from Cons.prems(4) obtain f' where f: "f = Suc f'" and f': "need v \<le> f'"
      "foldr (\<lambda>n m. Suc (max n m)) (map need vs) 0 \<le> f'"
    by (cases f) auto
  have v: "stops r \<Longrightarrow> parse_value f' (json v @ r) = Some (jval_of v, r)" for r
    using Cons.prems(3) [of v f' r] f' by simp
  show ?case
  proof (cases vs)
    case Nil
    with v f show ?thesis by simp
  next
    case (Cons w ws)
    have "parse_elems f' (join_commas (map json vs) @ CHR 0x5D # rest) = Some (map jval_of vs, rest)"
      by (rule Cons.IH) (use Cons.prems f' Cons in auto)
    with Cons v f show ?thesis by simp
  qed
qed simp

lemma parse_members_json:
  assumes "fs \<noteq> []" "list_all (\<lambda>(k, v). plain k \<and> plain_val v) fs"
    and "\<And>k v f rest. (k, v) \<in> set fs \<Longrightarrow> need v \<le> f \<Longrightarrow> stops rest \<Longrightarrow>
      parse_value f (json v @ rest) = Some (jval_of v, rest)"
    and "foldr (\<lambda>n m. Suc (max n m)) (map (\<lambda>(k, v). need v) fs) 0 \<le> f"
  shows "parse_members f (join_commas (map (\<lambda>(k, v). json_string k @ '':'' @ json v) fs) @ CHR 0x7D # rest) =
    Some (map (\<lambda>(k, v). (k, jval_of v)) fs, rest)"
  using assms
proof (induction fs arbitrary: f)
  case (Cons m fs)
  obtain k v where m: "m = (k, v)" by fastforce
  from Cons.prems(4) m obtain f' where f: "f = Suc f'" and f': "need v \<le> f'"
      "foldr (\<lambda>n m. Suc (max n m)) (map (\<lambda>(k, v). need v) fs) 0 \<le> f'"
    by (cases f) auto
  have k: "plain k" using Cons.prems(2) m by simp
  have v: "stops r \<Longrightarrow> parse_value f' (json v @ r) = Some (jval_of v, r)" for r
    using Cons.prems(3) [of k v f' r] f' m by simp
  show ?case
  proof (cases fs)
    case Nil
    with v f k m show ?thesis by (simp add: json_string_plain)
  next
    case (Cons w ws)
    have "parse_members f' (join_commas (map (\<lambda>(k, v). json_string k @ '':'' @ json v) fs) @ CHR 0x7D # rest) =
        Some (map (\<lambda>(k, v). (k, jval_of v)) fs, rest)"
      by (rule Cons.IH) (use Cons.prems f' Cons in auto)
    with Cons v f k m show ?thesis by (simp add: json_string_plain)
  qed
qed simp

lemma parse_value_json:
  "plain_val v \<Longrightarrow> need v \<le> f \<Longrightarrow> stops rest \<Longrightarrow> parse_value f (json v @ rest) = Some (jval_of v, rest)"
proof (induction v arbitrary: f rest rule: json.induct)
  case (7 vs)
  from "7.prems"(2) obtain f' where f: "f = Suc f'" and f': "foldr (\<lambda>n m. Suc (max n m)) (map need vs) 0 \<le> f'"
    by (cases f) auto
  show ?case
  proof (cases vs)
    case Nil
    with f show ?thesis by simp
  next
    case (Cons w ws)
    obtain c s where c: "json w = c # s" "\<not> is_space c" "c \<noteq> CHR 0x5D"
      by (rule json_first [of w]) (use "7.prems"(1) Cons in auto)
    have "parse_elems f' (join_commas (map json vs) @ CHR 0x5D # rest) = Some (map jval_of vs, rest)"
      by (rule parse_elems_json) (use "7.IH" "7.prems" f' Cons in \<open>auto simp: list_all_iff\<close>)
    with c Cons f show ?thesis by (cases ws) simp_all
  qed
next
  case (8 fs)
  from "8.prems"(2) obtain f' where f: "f = Suc f'"
    and f': "foldr (\<lambda>n m. Suc (max n m)) (map (\<lambda>(k, v). need v) fs) 0 \<le> f'"
    by (cases f) auto
  show ?case
  proof (cases fs)
    case Nil
    with f show ?thesis by simp
  next
    case (Cons w ws)
    obtain k v where w: "w = (k, v)" by fastforce
    have "parse_members f' (join_commas (map (\<lambda>(k, v). json_string k @ '':'' @ json v) fs) @ CHR 0x7D # rest) =
        Some (map (\<lambda>(k, v). (k, jval_of v)) fs, rest)"
    proof (rule parse_members_json)
      fix k v f rest
      assume a: "(k, v) \<in> set fs" "need v \<le> f" "stops rest"
      then have "plain_val v" using "8.prems"(1) by (auto simp: list_all_iff)
      with a show "parse_value f (json v @ rest) = Some (jval_of v, rest)" using "8.IH" by blast
    qed (use "8.prems" f' Cons in \<open>auto simp: list_all_iff\<close>)
    with Cons w f show ?thesis by (cases ws) (simp_all add: json_string_def)
  qed
next
  case (3 n)
  have "decimal (unat n) = json_int (uint n)" by (simp add: json_int_def nat_uint_eq not_less)
  with 3 parse_value_int [of rest f "uint n"] need_pos show ?case by simp
next
  case (4 i)
  with parse_value_int show ?case by simp
next
  case (5 s)
  with parse_value_string show ?case by (simp add: json_string_plain)
next
  case (6 bs)
  with parse_value_string show ?case by simp
next
  case 1
  then show ?case by (cases f) (simp_all add: keyword_def)
next
  case (2 b)
  then show ?case by (cases f) (simp_all add: keyword_def)
qed simp

lemma need_elems_length:
  "(\<And>v. v \<in> set vs \<Longrightarrow> need v \<le> length (json v)) \<Longrightarrow>
   foldr (\<lambda>n m. Suc (max n m)) (map need vs) 0 \<le> Suc (length (join_commas (map json vs)))"
proof (induction vs)
  case (Cons v vs)
  then show ?case by (cases vs) (fastforce simp: max_def)+
qed simp

lemma need_members_length:
  "(\<And>k v. (k, v) \<in> set fs \<Longrightarrow> need v \<le> length (json v)) \<Longrightarrow>
   foldr (\<lambda>n m. Suc (max n m)) (map (\<lambda>(k, v). need v) fs) 0 \<le>
     Suc (length (join_commas (map (\<lambda>(k, v). json_string k @ '':'' @ json v) fs)))"
proof (induction fs)
  case (Cons m fs)
  obtain k v where "m = (k, v)" by fastforce
  with Cons show ?case by (cases fs) (fastforce simp: max_def)+
qed simp

lemma need_le_length: "plain_val v \<Longrightarrow> need v \<le> length (json v)"
proof (induction v rule: json.induct)
  case (7 vs)
  then have "foldr (\<lambda>n m. Suc (max n m)) (map need vs) 0 \<le> Suc (length (join_commas (map json vs)))"
    by (intro need_elems_length) (auto simp: list_all_iff)
  then show ?case by simp
next
  case (8 fs)
  then have "foldr (\<lambda>n m. Suc (max n m)) (map (\<lambda>(k, v). need v) fs) 0 \<le>
     Suc (length (join_commas (map (\<lambda>(k, v). json_string k @ '':'' @ json v) fs)))"
    by (intro need_members_length) (auto simp: list_all_iff)
  then show ?case by simp
next
  case (3 n)
  show ?case using decimal_first [of "unat n"] by auto
next
  case (4 i)
  show ?case using json_int_first [of i] by auto
qed (simp_all add: json_string_def)

text \<open>\<open>decode\<close> reads what \<open>encode\<close> has written.\<close>

lemma json_Decode_encode:
  assumes "plain_val v"
  shows "json_Decode (json_bytes v) = Inr (jval_of v)"
proof -
  have "parse_value (Suc (length (json v @ [CHR 0x0A]))) (json v @ [CHR 0x0A]) = Some (jval_of v, [CHR 0x0A])"
    by (rule parse_value_json) (use assms need_le_length [OF assms] in simp_all)
  then show ?thesis by (simp add: json_Decode_def json_bytes_def Let_def del: parse_value.simps)
qed

section \<open>Stored fields\<close>

lemma int_of_json_int:
  "- (2 ^ 63) \<le> i \<Longrightarrow> i < 2 ^ 63 \<Longrightarrow> int_of_number (json_int i) = Some i"
proof -
  assume i: "- (2 ^ 63) \<le> i" "i < 2 ^ 63"
  obtain c s where d: "decimal (nat i) = c # s" "is_digit c" using decimal_first by blast
  have "c \<noteq> CHR ''-''" using d(2) by (auto simp: is_digit_def)
  with d i decimal_digits [of "nat i"] dec_value_decimal [of "nat i"] decimal_digits [of "nat (- i)"]
  show ?thesis
    by (cases "i < 0") (auto simp: int_of_number_def json_int_def Let_def)
qed

lemma b64_index_digit: "n < 64 \<Longrightarrow> b64_index (b64_digit n) = Some n"
proof -
  assume n: "n < 64"
  then have "b64_digit n \<in> set b64_alphabet"
    unfolding b64_digit_def by (intro nth_mem) (simp only: length_b64_alphabet)
  with b64_digit_props [OF n] show ?thesis by (simp add: b64_index_def)
qed

lemma b64_quads_base64: "b64_quads (base64 bs) = Some bs"
  by (induction bs rule: base64.induct)
    (simp_all only: base64.simps b64_quads.simps append_Cons append_Nil b64_index_digit prod.case option.case
      b64_simps if_True if_False simp_thms byte_of_nat_unat option.map)

lemma base64_no_breaks: "filter (\<lambda>c. c \<noteq> CHR 0x0A \<and> c \<noteq> CHR 0x0D) (base64 bs) = base64 bs"
proof -
  have "plain (base64 bs)" by simp
  then show ?thesis by (intro filter_True) (auto simp: plain_def list_all_iff json_safe_def)
qed

lemma b64_Decode_base64 [simp]: "b64_DecodeString (base64 bs) = Some bs"
  by (simp add: b64_DecodeString_def base64_no_breaks b64_quads_base64)

interpretation std_base64: codec base64 b64_DecodeString
  by unfold_locales simp

end
