(* ===== verification/Sign_Keys.thy ===== *)
theory Sign_Keys
  imports Sign Go_JSON_Roundtrip
begin

text \<open>
  \<open>sign/sign_tools.go\<close>, the part on keys: their generation, and the marshalling of the
  threshold scheme's keys, which go through JSON into the configuration files. The types of
  kyber, scalars, points and public polynomials, are type parameters, and its operations
  the fields of a record; a private share is a struct of an index and a scalar.
\<close>

section \<open>Keys\<close>

record 's PriShare =
  share_I :: int
  share_V :: 's

record ('s, 'pt, 'pp) kyber =
  scalar_MarshalBinary :: "'s \<Rightarrow> error + bytes"
  scalar_UnmarshalBinary :: "bytes \<Rightarrow> error + 's"
  point_MarshalBinary :: "'pt \<Rightarrow> error + bytes"
  point_UnmarshalBinary :: "bytes \<Rightarrow> error + 'pt"
  pub_Info :: "'pp \<Rightarrow> 'pt \<times> 'pt list"
  pub_New :: "'pt \<Rightarrow> 'pt list \<Rightarrow> 'pp"
  share_Hash :: "'s PriShare \<Rightarrow> bytes"

text \<open>\<open>GenED25519Keys\<close> returns the private key first; \<open>gen\<close> is the library's result.\<close>

definition GenED25519Keys :: "error + bytes \<times> bytes \<Rightarrow> (bytes \<times> bytes) outcome" where
  "GenED25519Keys gen =
     (case gen of
        Inl err \<Rightarrow> Panic (PanicError err)
      | Inr (pubKey, privKey) \<Rightarrow> Ret (privKey, pubKey))"

text \<open>\<open>GenTSKeys\<close>: a random polynomial of \<open>t\<close> coefficients whose value at 0 is the secret, its
  commitment, and its values at the first \<open>n\<close> points.\<close>

record ('poly, 's, 'pp) dealer =
  NewPriPoly :: "int \<Rightarrow> 's \<Rightarrow> 'poly"
  Commit :: "'poly \<Rightarrow> 'pp"
  Shares :: "'poly \<Rightarrow> int \<Rightarrow> 's PriShare list"

definition GenTSKeys ::
  "('poly, 's, 'pp) dealer \<Rightarrow> 's \<Rightarrow> int \<Rightarrow> int \<Rightarrow> 's PriShare list \<times> 'pp" where
  "GenTSKeys d secret t n =
     (let priPoly = NewPriPoly d t secret;
          pubPoly = Commit d priPoly;
          shares = Shares d priPoly n
      in (shares, pubPoly))"

section \<open>The private share\<close>

record TSPartialMarshalled =
  tspm_I :: int
  Binary :: gobytes

definition goval_of_TSPartial :: "TSPartialMarshalled \<Rightarrow> goval" where
  "goval_of_TSPartial p = GStruct [(''I'', GInt (tspm_I p)), (''Binary'', go_bytes (Binary p))]"

definition MarshallTSPartialKey ::
  "('s, 'pt, 'pp) kyber \<Rightarrow> 's PriShare \<Rightarrow> error + TSPartialMarshalled" where
  "MarshallTSPartialKey k priShare =
     (case scalar_MarshalBinary k (share_V priShare) of
        Inl err \<Rightarrow> Inl err
      | Inr shareAsBytes \<Rightarrow> Inr \<lparr>tspm_I = share_I priShare, Binary = Some shareAsBytes\<rparr>)"

definition UnMarshallTSPartialKey ::
  "('s, 'pt, 'pp) kyber \<Rightarrow> TSPartialMarshalled \<Rightarrow> error + 's PriShare" where
  "UnMarshallTSPartialKey k par =
     (case scalar_UnmarshalBinary k (contents (Binary par)) of
        Inl err \<Rightarrow> Inl err
      | Inr v \<Rightarrow> Inr \<lparr>share_I = tspm_I par, share_V = v\<rparr>)"

text \<open>The package has an \<open>encode\<close> of its own.\<close>

definition sign_encode :: "goval \<Rightarrow> error + bytes" where
  "sign_encode data =
     (if supported data then Inr (bytes_of_string (json data @ [CHR 0x0A]))
      else Inl ErrUnsupportedType)"

lemma sign_encode_eq [simp]: "sign_encode = encode"
  by (rule ext) (simp add: sign_encode_def encode_def)

definition EncodeTSPartialKey :: "('s, 'pt, 'pp) kyber \<Rightarrow> 's PriShare \<Rightarrow> error + bytes" where
  "EncodeTSPartialKey k priShare =
     (case MarshallTSPartialKey k priShare of
        Inl err \<Rightarrow> Inl err
      | Inr mtspk \<Rightarrow> sign_encode (goval_of_TSPartial mtspk))"

text \<open>\<open>decode\<close> into a \<open>TSPartialMarshalled\<close>: the zero value is filled from an object.\<close>

definition decode_TSPartial :: "bytes \<Rightarrow> error + TSPartialMarshalled" where
  "decode_TSPartial data =
     (case json_Decode data of
        Inl err \<Rightarrow> Inl err
      | Inr JNull \<Rightarrow> Inr \<lparr>tspm_I = 0, Binary = None\<rparr>
      | Inr (JObject ms) \<Rightarrow>
          (case (store_all store_int (members_of ms ''I'') 0, store_all store_bytes (members_of ms ''Binary'') None) of
             (Inr i, Inr b) \<Rightarrow> Inr \<lparr>tspm_I = i, Binary = b\<rparr>
           | _ \<Rightarrow> Inl ErrJSON)
      | Inr _ \<Rightarrow> Inl ErrJSON)"

definition DecodeTSPartialKey :: "('s, 'pt, 'pp) kyber \<Rightarrow> bytes \<Rightarrow> error + 's PriShare" where
  "DecodeTSPartialKey k data =
     (case decode_TSPartial data of
        Inl err \<Rightarrow> Inl err
      | Inr par \<Rightarrow> UnMarshallTSPartialKey k par)"

definition EqualTSPartialKey :: "('s, 'pt, 'pp) kyber \<Rightarrow> 's PriShare \<Rightarrow> 's PriShare \<Rightarrow> bool" where
  "EqualTSPartialKey k p1 p2 \<longleftrightarrow>
     share_I p1 = share_I p2 \<and> bytes_Equal (Some (share_Hash k p1)) (Some (share_Hash k p2))"

section \<open>The public key\<close>

record TSPublicMarshalled =
  BaseBytes :: gobytes
  CommitBytes :: "gobytes slice"

definition goval_of_TSPublic :: "TSPublicMarshalled \<Rightarrow> goval" where
  "goval_of_TSPublic p =
     GStruct [(''BaseBytes'', go_bytes (BaseBytes p)), (''CommitBytes'', go_slice go_bytes (CommitBytes p))]"

definition MarshallTSPublicKey :: "('s, 'pt, 'pp) kyber \<Rightarrow> 'pp \<Rightarrow> error + TSPublicMarshalled" where
  "MarshallTSPublicKey k pubKey =
     (let (base, commits) = pub_Info k pubKey in
      case point_MarshalBinary k base of
        Inl err \<Rightarrow> Inl err
      | Inr baseAsBytes \<Rightarrow>
          (case map_result (\<lambda>commit. point_MarshalBinary k commit) commits of
             Inl err \<Rightarrow> Inl err
           | Inr commitBytes \<Rightarrow>
               Inr \<lparr>BaseBytes = Some baseAsBytes, CommitBytes = Some (map Some commitBytes)\<rparr>))"

definition UnMarshallTSPublicKey :: "('s, 'pt, 'pp) kyber \<Rightarrow> TSPublicMarshalled \<Rightarrow> error + 'pp" where
  "UnMarshallTSPublicKey k tspm =
     (case point_UnmarshalBinary k (contents (BaseBytes tspm)) of
        Inl err \<Rightarrow> Inl err
      | Inr baseDecoded \<Rightarrow>
          (case map_result (\<lambda>cb. point_UnmarshalBinary k (contents cb)) (contents (CommitBytes tspm)) of
             Inl err \<Rightarrow> Inl err
           | Inr commitsDecoded \<Rightarrow> Inr (pub_New k baseDecoded commitsDecoded)))"

definition EncodeTSPublicKey :: "('s, 'pt, 'pp) kyber \<Rightarrow> 'pp \<Rightarrow> error + bytes" where
  "EncodeTSPublicKey k pubkey =
     (case MarshallTSPublicKey k pubkey of
        Inl err \<Rightarrow> Inl err
      | Inr tspm \<Rightarrow> sign_encode (goval_of_TSPublic tspm))"

definition decode_TSPublic :: "bytes \<Rightarrow> error + TSPublicMarshalled" where
  "decode_TSPublic data =
     (case json_Decode data of
        Inl err \<Rightarrow> Inl err
      | Inr JNull \<Rightarrow> Inr \<lparr>BaseBytes = None, CommitBytes = None\<rparr>
      | Inr (JObject ms) \<Rightarrow>
          (case (store_all store_bytes (members_of ms ''BaseBytes'') None,
                 store_all store_bytes_list (members_of ms ''CommitBytes'') None) of
             (Inr b, Inr cs) \<Rightarrow> Inr \<lparr>BaseBytes = b, CommitBytes = cs\<rparr>
           | _ \<Rightarrow> Inl ErrJSON)
      | Inr _ \<Rightarrow> Inl ErrJSON)"

definition DecodeTSPublicKey :: "('s, 'pt, 'pp) kyber \<Rightarrow> bytes \<Rightarrow> error + 'pp" where
  "DecodeTSPublicKey k data =
     (case decode_TSPublic data of
        Inl err \<Rightarrow> Inl err
      | Inr tspm \<Rightarrow> UnMarshallTSPublicKey k tspm)"

section \<open>Round trips\<close>

text \<open>What kyber promises: a value that marshals unmarshals to itself, and a public polynomial
  is made of what \<open>Info\<close> says of it.\<close>

definition kyber_ok :: "('s, 'pt, 'pp) kyber \<Rightarrow> bool" where
  "kyber_ok k \<longleftrightarrow>
     (\<forall>v bs. scalar_MarshalBinary k v = Inr bs \<longrightarrow> scalar_UnmarshalBinary k bs = Inr v) \<and>
     (\<forall>p bs. point_MarshalBinary k p = Inr bs \<longrightarrow> point_UnmarshalBinary k bs = Inr p) \<and>
     (\<forall>p. pub_New k (fst (pub_Info k p)) (snd (pub_Info k p)) = p)"

lemma field_names [simp]:
  "fold_name ''I'' = ''i''" "fold_name ''Binary'' = ''binary''"
  "fold_name ''BaseBytes'' = ''basebytes''" "fold_name ''CommitBytes'' = ''commitbytes''"
  by code_simp+

lemma store_bytes_base64 [simp]: "store_bytes (JString (base64 bs)) x = Inr (Some bs)"
  by (simp add: store_bytes_def)

lemma decode_encode_TSPartial:
  assumes "- (2 ^ 63) \<le> i" "i < 2 ^ 63"
  shows "\<exists>bs. encode (goval_of_TSPartial \<lparr>tspm_I = i, Binary = Some b\<rparr>) = Inr bs \<and>
    decode_TSPartial bs = Inr \<lparr>tspm_I = i, Binary = Some b\<rparr>"
proof -
  let ?v = "goval_of_TSPartial \<lparr>tspm_I = i, Binary = Some b\<rparr>"
  have "plain_val ?v" by (simp add: goval_of_TSPartial_def go_bytes_def json_safe_def)
  then have "json_Decode (json_bytes ?v) = Inr (jval_of ?v)" by (rule json_Decode_encode)
  with assms show ?thesis
    by (simp add: goval_of_TSPartial_def go_bytes_def decode_TSPartial_def members_of_def
        store_int_def int_of_json_int del: fold_name.simps)
qed

lemma store_bytes_all [simp]:
  "map_result (\<lambda>v. store_bytes v None) (map (\<lambda>bs. JString (base64 bs)) bss) = Inr (map Some bss)"
  by (induction bss) simp_all

lemma decode_encode_TSPublic:
  "\<exists>bs. encode (goval_of_TSPublic \<lparr>BaseBytes = Some b, CommitBytes = Some (map Some cs)\<rparr>) = Inr bs \<and>
    decode_TSPublic bs = Inr \<lparr>BaseBytes = Some b, CommitBytes = Some (map Some cs)\<rparr>"
proof -
  let ?v = "goval_of_TSPublic \<lparr>BaseBytes = Some b, CommitBytes = Some (map Some cs)\<rparr>"
  have "plain_val ?v" by (simp add: goval_of_TSPublic_def go_bytes_def go_slice_def json_safe_def list_all_iff)
  then have "json_Decode (json_bytes ?v) = Inr (jval_of ?v)" by (rule json_Decode_encode)
  then show ?thesis
    by (simp add: goval_of_TSPublic_def go_bytes_def go_slice_def decode_TSPublic_def members_of_def
        store_bytes_list_def comp_def list_all_iff del: fold_name.simps)
qed

lemma map_result_inverse:
  "map_result f xs = Inr ys \<Longrightarrow> (\<And>x y. f x = Inr y \<Longrightarrow> g y = Inr x) \<Longrightarrow> map_result g ys = Inr xs"
  by (induction xs arbitrary: ys) (auto split: sum.splits)

lemma DecodeTSPartialKey_Encode:
  assumes "kyber_ok k" and "EncodeTSPartialKey k s = Inr bs"
    and "- (2 ^ 63) \<le> share_I s" "share_I s < 2 ^ 63"
  shows "DecodeTSPartialKey k bs = Inr s"
proof -
  from assms(2) obtain sb where sb: "scalar_MarshalBinary k (share_V s) = Inr sb"
    and enc: "encode (goval_of_TSPartial \<lparr>tspm_I = share_I s, Binary = Some sb\<rparr>) = Inr bs"
    by (auto simp: EncodeTSPartialKey_def MarshallTSPartialKey_def split: sum.splits)
  have "decode_TSPartial bs = Inr \<lparr>tspm_I = share_I s, Binary = Some sb\<rparr>"
    using decode_encode_TSPartial [OF assms(3,4), of sb] enc by simp
  moreover have "scalar_UnmarshalBinary k sb = Inr (share_V s)"
    using assms(1) sb by (simp add: kyber_ok_def)
  ultimately show ?thesis by (simp add: DecodeTSPartialKey_def UnMarshallTSPartialKey_def)
qed

lemma DecodeTSPublicKey_Encode:
  assumes "kyber_ok k" and "EncodeTSPublicKey k p = Inr bs"
  shows "DecodeTSPublicKey k bs = Inr p"
proof -
  obtain base commits where info: "pub_Info k p = (base, commits)" by fastforce
  with assms(2) obtain b cs where b: "point_MarshalBinary k base = Inr b"
    and cs: "map_result (\<lambda>commit. point_MarshalBinary k commit) commits = Inr cs"
    and enc: "encode (goval_of_TSPublic \<lparr>BaseBytes = Some b, CommitBytes = Some (map Some cs)\<rparr>) = Inr bs"
    by (auto simp: EncodeTSPublicKey_def MarshallTSPublicKey_def split: sum.splits)
  have "decode_TSPublic bs = Inr \<lparr>BaseBytes = Some b, CommitBytes = Some (map Some cs)\<rparr>"
    using decode_encode_TSPublic [of b cs] enc by simp
  moreover have "point_UnmarshalBinary k b = Inr base"
    using assms(1) b by (simp add: kyber_ok_def)
  moreover have "map_result (point_UnmarshalBinary k) cs = Inr commits"
    by (rule map_result_inverse [OF cs]) (use assms(1) in \<open>simp add: kyber_ok_def\<close>)
  then have "map_result (\<lambda>cb. point_UnmarshalBinary k (contents cb)) (map Some cs) = Inr commits"
    by (induction cs arbitrary: commits) (auto split: sum.splits)
  moreover have "pub_New k base commits = p" using assms(1) info unfolding kyber_ok_def by (metis fst_conv snd_conv)
  ultimately show ?thesis by (simp add: DecodeTSPublicKey_def UnMarshallTSPublicKey_def)
qed

section \<open>Keys survive the configuration files\<close>

text \<open>C33: A private share written with \<open>EncodeTSPartialKey\<close> is read back by
  \<open>DecodeTSPartialKey\<close> as the same share, index and scalar, for every index of Go's
  64-bit \<open>int\<close>.\<close>

theorem share_key_round_trip:
  assumes "kyber_ok k" and "EncodeTSPartialKey k s = Inr bs"
    and "- (2 ^ 63) \<le> share_I s" and "share_I s < 2 ^ 63"
  shows "DecodeTSPartialKey k bs = Inr s"
  by (rule DecodeTSPartialKey_Encode [OF assms])

text \<open>C34: A public polynomial written with \<open>EncodeTSPublicKey\<close> is read back by
  \<open>DecodeTSPublicKey\<close> as the same polynomial, whatever the number of its commitments.\<close>

theorem public_key_round_trip:
  assumes "kyber_ok k" and "EncodeTSPublicKey k p = Inr bs"
  shows "DecodeTSPublicKey k bs = Inr p"
  by (rule DecodeTSPublicKey_Encode [OF assms])

text \<open>Keys made of bytes.\<close>

definition byte_kyber :: "(u8, u8, u8 \<times> u8 list) kyber" where
  "byte_kyber =
     \<lparr>scalar_MarshalBinary = (\<lambda>v. Inr [v]),
      scalar_UnmarshalBinary = (\<lambda>bs. case bs of [v] \<Rightarrow> Inr v | _ \<Rightarrow> Inl (ErrExternal ''scalar'')),
      point_MarshalBinary = (\<lambda>v. Inr [v]),
      point_UnmarshalBinary = (\<lambda>bs. case bs of [v] \<Rightarrow> Inr v | _ \<Rightarrow> Inl (ErrExternal ''point'')),
      pub_Info = (\<lambda>p. p), pub_New = (\<lambda>b cs. (b, cs)), share_Hash = (\<lambda>s. [share_V s])\<rparr>"

lemma byte_kyber_ok: "kyber_ok byte_kyber"
  by (simp add: kyber_ok_def byte_kyber_def)

lemma byte_kyber_encodes:
  "\<exists>bs. EncodeTSPartialKey byte_kyber s = Inr bs"
  "\<exists>bs. EncodeTSPublicKey byte_kyber p = Inr bs"
proof -
  show "\<exists>bs. EncodeTSPartialKey byte_kyber s = Inr bs"
    by (simp add: EncodeTSPartialKey_def MarshallTSPartialKey_def byte_kyber_def goval_of_TSPartial_def go_bytes_def)
  have "map_result (\<lambda>v. Inr [v]) cs = (Inr (map (\<lambda>v. [v]) cs) :: error + bytes list)" for cs
    by (induction cs) simp_all
  then show "\<exists>bs. EncodeTSPublicKey byte_kyber p = Inr bs"
    by (simp add: EncodeTSPublicKey_def MarshallTSPublicKey_def byte_kyber_def goval_of_TSPublic_def go_bytes_def
        go_slice_def list_all_iff split: prod.splits)
qed

theorem share_key_round_trip_witness:
  "\<exists>bs. EncodeTSPartialKey byte_kyber \<lparr>share_I = 3, share_V = 250\<rparr> = Inr bs \<and>
     DecodeTSPartialKey byte_kyber bs = Inr \<lparr>share_I = 3, share_V = 250\<rparr>"
proof -
  obtain bs where bs: "EncodeTSPartialKey byte_kyber \<lparr>share_I = 3, share_V = 250\<rparr> = Inr bs"
    using byte_kyber_encodes(1) by blast
  from share_key_round_trip [OF byte_kyber_ok bs] bs show ?thesis by simp
qed

theorem public_key_round_trip_witness:
  "\<exists>bs. EncodeTSPublicKey byte_kyber (7, [1, 2, 3]) = Inr bs \<and>
     DecodeTSPublicKey byte_kyber bs = Inr (7, [1, 2, 3])"
proof -
  obtain bs where bs: "EncodeTSPublicKey byte_kyber (7, [1, 2, 3]) = Inr bs"
    using byte_kyber_encodes(2) by blast
  from public_key_round_trip [OF byte_kyber_ok bs] bs show ?thesis by simp
qed

end
