(* ===== verification/Config_Load.thy ===== *)
theory Config_Load
  imports Config Sign_Keys
begin

text \<open>
  \<open>LoadConfig\<close> of \<open>config/config.go\<close>. The library viper is a parameter: a function from the
  set-up the code makes (prefix and replacer for environment variables, name and directory of
  the file) to what it then reads from the file and the environment: whether reading
  succeeded, and the typed lookups. An entry of a string map is a value of unknown type,
  which the code asserts to be of the type it needs.
\<close>

text \<open>\<open>VMap\<close> is a \<open>map[string]interface{}\<close>, \<open>VStringMap\<close> a \<open>map[string]string\<close>.\<close>

datatype setting =
    VString string
  | VInt int
  | VBool bool
  | VMap "(string, setting) fmap"
  | VStringMap "(string, string) fmap"
  | VOther

text \<open>The set-up of a viper object before \<open>ReadInConfig\<close>. The replacer for the names of
  environment variables is a list of characters and their replacements.\<close>

record viper_setup =
  vs_envPrefix :: string
  vs_automaticEnv :: bool
  vs_envKeyReplacer :: "(char \<times> char) list"
  vs_configName :: string
  vs_configPaths :: "string list"

text \<open>\<open>viper.New\<close>.\<close>

definition viper_New :: viper_setup where
  "viper_New =
     \<lparr>vs_envPrefix = [], vs_automaticEnv = False, vs_envKeyReplacer = [], vs_configName = ''config'',
      vs_configPaths = []\<rparr>"

text \<open>The set-up \<open>LoadConfig\<close> makes, and \<open>main\<close> of the generator likewise.\<close>

definition config_setup :: "string \<Rightarrow> string \<Rightarrow> viper_setup" where
  "config_setup configPrefix configName =
     viper_New
       \<lparr>vs_envPrefix := configPrefix, vs_automaticEnv := True,
        vs_envKeyReplacer := [(CHR ''.'', CHR ''_'')],
        vs_configName := configName, vs_configPaths := [''./'']\<rparr>"

record viper =
  v_ReadInConfig :: "error option"
  v_GetString :: "string \<Rightarrow> string"
  v_GetInt :: "string \<Rightarrow> int"
  v_GetBool :: "string \<Rightarrow> bool"
  v_GetStringMap :: "string \<Rightarrow> (string, setting) fmap"

text \<open>Type assertions; a missing entry of the map is a nil interface.\<close>

fun assert_int :: "setting option \<Rightarrow> int outcome" where
  "assert_int (Some (VInt i)) = Ret i"
| "assert_int _ = Panic BadTypeAssertion"

fun assert_string :: "setting option \<Rightarrow> string outcome" where
  "assert_string (Some (VString s)) = Ret s"
| "assert_string _ = Panic BadTypeAssertion"

text \<open>The maps the loop over the peers fills: public keys, ports, addresses.\<close>

type_synonym peer_maps = "(string, bytes) fmap \<times> (string, int) fmap \<times> (string, string) fmap"

fun load_peers ::
  "(string, setting) fmap \<Rightarrow> (string, setting) fmap \<Rightarrow> (string \<times> setting) list \<Rightarrow> peer_maps \<Rightarrow>
   (error + peer_maps) outcome" where
  "load_peers ports ips [] maps = Ret (Inr maps)"
| "load_peers ports ips ((name, pk) # rest) (pubKeyMap, clusterPort, clusterAddr) =
     bind_outcome (assert_int (fmlookup ports name)) (\<lambda>port.
     bind_outcome (assert_string (fmlookup ips name)) (\<lambda>addr.
       case pk of
         VString pkAsString \<Rightarrow>
           (case hex_DecodeString pkAsString of
              Inl err \<Rightarrow> Ret (Inl err)
            | Inr pubKey \<Rightarrow>
                load_peers ports ips rest
                  (fmupd name pubKey pubKeyMap, fmupd name port clusterPort, fmupd name addr clusterAddr))
       | _ \<Rightarrow> Ret (Inl ErrPublicKeyFormat)))"

definition LoadConfig ::
  "('s, 'pt, 'pp) kyber \<Rightarrow> (viper_setup \<Rightarrow> viper) \<Rightarrow> string \<Rightarrow> string \<Rightarrow> (string \<times> setting) list \<Rightarrow>
   (error + ('s PriShare, 'pp) Config) outcome" where
  "LoadConfig k read configPrefix configName order =
     (let v = read (config_setup configPrefix configName) in
      case v_ReadInConfig v of Some err \<Rightarrow> Ret (Inl err) | None \<Rightarrow>
     (case hex_DecodeString (v_GetString v ''privkeyed'') of Inl err \<Rightarrow> Ret (Inl err) | Inr privKeyED \<Rightarrow>
     (case hex_DecodeString (v_GetString v ''tspubkey'') of Inl err \<Rightarrow> Ret (Inl err) | Inr tsPubKeyAsBytes \<Rightarrow>
     (case DecodeTSPublicKey k tsPubKeyAsBytes of Inl err \<Rightarrow> Ret (Inl err) | Inr tsPubKey \<Rightarrow>
     (case hex_DecodeString (v_GetString v ''tsshare'') of Inl err \<Rightarrow> Ret (Inl err) | Inr tsShareAsBytes \<Rightarrow>
     (case DecodeTSPartialKey k tsShareAsBytes of Inl err \<Rightarrow> Ret (Inl err) | Inr tsShareKey \<Rightarrow>
       bind_outcome
         (load_peers (v_GetStringMap v ''peers_p2p_port'') (v_GetStringMap v ''cluster_ips'') order
            (fmempty, fmempty, fmempty))
         (\<lambda>r. case r of Inl err \<Rightarrow> Ret (Inl err) | Inr (pubKeyMap, clusterPort, clusterAddr) \<Rightarrow>
            Ret (Inr
              \<lparr>conf_Name = v_GetString v ''name'', conf_MaxPool = v_GetInt v ''max_pool'',
               conf_ListenPort = 0, conf_P2PListenPort = v_GetInt v ''p2p_listen_port'',
               conf_RPCListenPort = v_GetInt v ''rpc_listen_port'',
               conf_AddrStr = v_GetString v ''address'', conf_ClusterAddr = clusterAddr,
               conf_ClusterPort = clusterPort, conf_PublicKeyMap = pubKeyMap,
               conf_PrivateKey = privKeyED, conf_TsPublicKey = tsPubKey,
               conf_TsPrivateKey = tsShareKey,
               conf_Probability = float64_div (float64_of_int (v_GetInt v ''expectation''))
                 (float64_of_int (int (map_len clusterAddr))),
               conf_SortitionEnabled = v_GetBool v ''sortition_enabled'',
               conf_LogLevel = v_GetInt v ''log_level'',
               conf_CanProposeBlock = v_GetBool v ''can_propose_block''\<rparr>))))))))"

section \<open>What loading yields\<close>

text \<open>A peer with a port, an address and a public key in hex.\<close>

definition peer_ok :: "(string, setting) fmap \<Rightarrow> (string, setting) fmap \<Rightarrow> string \<Rightarrow> setting \<Rightarrow> bool" where
  "peer_ok ports ips name pk \<longleftrightarrow>
     (\<exists>i. fmlookup ports name = Some (VInt i)) \<and> (\<exists>a. fmlookup ips name = Some (VString a)) \<and>
     (\<exists>s b. pk = VString s \<and> hex_DecodeString s = Inr b)"

definition peer_loaded ::
  "(string, setting) fmap \<Rightarrow> (string, setting) fmap \<Rightarrow> peer_maps \<Rightarrow> string \<Rightarrow> setting \<Rightarrow> bool" where
  "peer_loaded ports ips maps name pk \<longleftrightarrow>
     (case maps of (pks, prts, addrs) \<Rightarrow> \<exists>s b i a. pk = VString s \<and> hex_DecodeString s = Inr b \<and>
        fmlookup ports name = Some (VInt i) \<and> fmlookup ips name = Some (VString a) \<and>
        fmlookup pks name = Some b \<and> fmlookup prts name = Some i \<and> fmlookup addrs name = Some a)"

lemma load_peers_ok:
  assumes "list_all (\<lambda>(name, pk). peer_ok ports ips name pk) order" and "distinct (map fst order)"
  obtains pks prts addrs where
    "load_peers ports ips order (pks0, prts0, addrs0) = Ret (Inr (pks, prts, addrs))"
    "list_all (\<lambda>(name, pk). peer_loaded ports ips (pks, prts, addrs) name pk) order"
    "\<And>name. name \<notin> fst ` set order \<Longrightarrow> fmlookup pks name = fmlookup pks0 name \<and>
       fmlookup prts name = fmlookup prts0 name \<and> fmlookup addrs name = fmlookup addrs0 name"
  using assms
proof (induction order arbitrary: pks0 prts0 addrs0 thesis)
  case (Cons p order)
  obtain name pk where p: "p = (name, pk)" by fastforce
  with Cons.prems obtain i a s b where 1: "fmlookup ports name = Some (VInt i)"
    "fmlookup ips name = Some (VString a)" "pk = VString s" "hex_DecodeString s = Inr b"
    by (auto simp: peer_ok_def)
  have fresh: "name \<notin> fst ` set order" and rest: "list_all (\<lambda>(name, pk). peer_ok ports ips name pk) order"
    "distinct (map fst order)"
    using Cons.prems(2,3) p by simp_all
  obtain pks prts addrs where
    l: "load_peers ports ips order (fmupd name b pks0, fmupd name i prts0, fmupd name a addrs0) =
      Ret (Inr (pks, prts, addrs))"
    "list_all (\<lambda>(name, pk). peer_loaded ports ips (pks, prts, addrs) name pk) order"
    "\<And>n. n \<notin> fst ` set order \<Longrightarrow> fmlookup pks n = fmlookup (fmupd name b pks0) n \<and>
       fmlookup prts n = fmlookup (fmupd name i prts0) n \<and> fmlookup addrs n = fmlookup (fmupd name a addrs0) n"
    using Cons.IH [OF _ rest, of "fmupd name b pks0" "fmupd name i prts0" "fmupd name a addrs0"] by blast
  show ?case
  proof (rule Cons.prems(1))
    show "load_peers ports ips (p # order) (pks0, prts0, addrs0) = Ret (Inr (pks, prts, addrs))"
      using l(1) p 1 by simp
    show "list_all (\<lambda>(name, pk). peer_loaded ports ips (pks, prts, addrs) name pk) (p # order)"
      using l(2) l(3) [OF fresh] p 1 by (simp add: peer_loaded_def)
  qed (use l(3) p in auto)
qed simp

text \<open>A peer without a port or an address stops the loop with a panic, in any order, unless a
  public key before it is malformed.\<close>

lemma load_peers_incomplete:
  assumes "list_all (\<lambda>(name, pk). \<exists>s b. pk = VString s \<and> hex_DecodeString s = Inr b) order"
    and "(name, pk) \<in> set order"
    and "(\<forall>i. fmlookup ports name \<noteq> Some (VInt i)) \<or> (\<forall>a. fmlookup ips name \<noteq> Some (VString a))"
  shows "load_peers ports ips order maps = Panic BadTypeAssertion"
  using assms
proof (induction ports ips order maps rule: load_peers.induct)
  case (2 ports ips name' pk' rest pks prts addrs)
  show ?case
  proof (cases "assert_int (fmlookup ports name')")
    case (Panic e)
    then have "e = BadTypeAssertion" by (cases "fmlookup ports name'" rule: assert_int.cases) auto
    with Panic show ?thesis by simp
  next
    case port: (Ret i)
    show ?thesis
    proof (cases "assert_string (fmlookup ips name')")
      case (Panic e)
      then have "e = BadTypeAssertion" by (cases "fmlookup ips name'" rule: assert_string.cases) auto
      with Panic port show ?thesis by simp
    next
      case addr: (Ret a)
      have "name' \<noteq> name"
        using port addr "2.prems"(3)
        by (cases "fmlookup ports name'" rule: assert_int.cases;
            cases "fmlookup ips name'" rule: assert_string.cases) auto
      with 2 port addr show ?thesis by auto
    qed
  qed
qed simp

text \<open>So \<open>LoadConfig\<close> panics on a file whose keys can be decoded, if a peer is incomplete.\<close>

lemma LoadConfig_incomplete:
  assumes "v = read (config_setup pfx nm)"
    and "v_ReadInConfig v = None" and "hex_DecodeString (v_GetString v ''privkeyed'') = Inr priv"
    and "hex_DecodeString (v_GetString v ''tspubkey'') = Inr pb" and "DecodeTSPublicKey k pb = Inr pubPoly"
    and "hex_DecodeString (v_GetString v ''tsshare'') = Inr sb" and "DecodeTSPartialKey k sb = Inr sh"
    and "list_all (\<lambda>(name, pk). \<exists>s b. pk = VString s \<and> hex_DecodeString s = Inr b) order"
    and "(name, pk) \<in> set order"
    and "fmlookup (v_GetStringMap v ''peers_p2p_port'') name = None \<or> fmlookup (v_GetStringMap v ''cluster_ips'') name = None"
  shows "LoadConfig k read pfx nm order = Panic BadTypeAssertion"
proof -
  have "load_peers (v_GetStringMap v ''peers_p2p_port'') (v_GetStringMap v ''cluster_ips'') order
      (fmempty, fmempty, fmempty) = Panic BadTypeAssertion"
    by (rule load_peers_incomplete [OF assms(8,9)]) (use assms(10) in auto)
  with assms(1-7) show ?thesis by (simp add: LoadConfig_def Let_def)
qed

end
