(* ===== verification/Rpc_Handler.thy ===== *)
theory Rpc_Handler
  imports Go_Encoding
begin

text \<open>
  \<open>core/rpc_handler.go\<close>: the requests of clients, their serial numbers and the pool they
  wait in, and the part of \<open>ProposeBlockLoop\<close> (\<open>core/node.go\<close>) that takes requests out of
  the pool. \<open>NewRequest\<close> has two critical sections, one on the counter and one on the
  pool, so concurrent calls interleave between them; \<open>rpc_step\<close> is that interleaving.
\<close>

section \<open>Requests\<close>

record Request =
  Cmd :: gobytes

text \<open>The struct embeds \<open>Request\<close>; its field is \<open>rw_Request\<close>.\<close>

record RequestWrappedByServer =
  rw_Request :: Request
  ServerName :: string
  SN :: u64

record Reply =
  rep_ServerName :: string
  rep_SN :: u64

definition RequestWrappedByServer_Equal ::
  "RequestWrappedByServer \<Rightarrow> RequestWrappedByServer \<Rightarrow> bool" where
  "RequestWrappedByServer_Equal rwbs rwbs2 =
     (if ServerName rwbs \<noteq> ServerName rwbs2 \<or> SN rwbs \<noteq> SN rwbs2 then False
      else if Cmd (rw_Request rwbs) = None \<and> Cmd (rw_Request rwbs2) \<noteq> None then False
      else if Cmd (rw_Request rwbs) \<noteq> None \<and> Cmd (rw_Request rwbs2) = None then False
      else bytes_Equal (Cmd (rw_Request rwbs)) (Cmd (rw_Request rwbs2)))"

lemma RequestWrappedByServer_Equal_iff:
  "RequestWrappedByServer_Equal r r2 \<longleftrightarrow> r = r2"
  by (cases r; cases r2; cases "rw_Request r"; cases "rw_Request r2")
    (auto simp: RequestWrappedByServer_Equal_def bytes_Equal_def contents_def
      split: option.splits)

text \<open>The JSON form: the field of the embedded struct comes first.\<close>

definition goval_of_Request :: "RequestWrappedByServer \<Rightarrow> goval" where
  "goval_of_Request r =
     GStruct [(''Cmd'', go_bytes (Cmd (rw_Request r))),
              (''ServerName'', GString (ServerName r)),
              (''SN'', GUint (SN r))]"

section \<open>The handler and the pool\<close>

record RPCHandler =
  nodeName :: string
  nextSN :: u64

type_synonym RequestPool = "RequestWrappedByServer list"

text \<open>The two critical sections of \<open>NewRequest\<close>, and the call as a whole.\<close>

definition take_SN :: "RPCHandler \<Rightarrow> RPCHandler \<times> u64" where
  "take_SN c = (c\<lparr>nextSN := nextSN c + 1\<rparr>, nextSN c)"

definition append_request ::
  "RPCHandler \<Rightarrow> Request \<Rightarrow> u64 \<Rightarrow> RequestPool \<Rightarrow> RequestPool \<times> Reply" where
  "append_request c req sn pool =
     (pool @ [\<lparr>rw_Request = req, ServerName = nodeName c, SN = sn\<rparr>],
      \<lparr>rep_ServerName = nodeName c, rep_SN = sn\<rparr>)"

definition NewRequest ::
  "RPCHandler \<Rightarrow> Request \<Rightarrow> RequestPool \<Rightarrow> RPCHandler \<times> RequestPool \<times> Reply" where
  "NewRequest c req pool =
     (let (c', sn) = take_SN c;
          (pool', reply) = append_request c' req sn pool
      in (c', pool', reply))"

text \<open>What a proposer that won takes: at most 1000 requests, the oldest first.\<close>

definition drain_pool :: "RequestPool \<Rightarrow> RequestWrappedByServer list \<times> RequestPool" where
  "drain_pool pool =
     (let endNum = (if length pool < 1000 then length pool else 1000)
      in (take endNum pool, drop endNum pool))"

lemma drain_pool_split: "drain_pool pool = (reqs, rest) \<Longrightarrow> reqs @ rest = pool"
  by (auto simp: drain_pool_def Let_def split: if_splits)

lemma drain_pool_length: "length (fst (drain_pool pool)) = min 1000 (length pool)"
  by (simp add: drain_pool_def Let_def)

section \<open>Concurrent calls\<close>

text \<open>
  The state of a server's request path: the handler, the pool, the calls that hold a
  number but have not appended yet, and, to state what the code preserves, the requests
  handed to proposers and the number of calls begun so far.
\<close>

record rpc_state =
  handler :: RPCHandler
  pool :: RequestPool
  calls :: "(u64 \<times> Request) multiset"
  handed :: "RequestWrappedByServer list"
  begun :: nat

definition rpc_init :: "rpc_state \<Rightarrow> bool" where
  "rpc_init s \<longleftrightarrow> nextSN (handler s) = 0 \<and> pool s = [] \<and> calls s = {#} \<and> handed s = [] \<and> begun s = 0"

inductive rpc_step :: "rpc_state \<Rightarrow> rpc_state \<Rightarrow> bool" where
  rpc_take: "take_SN (handler s) = (c, sn) \<Longrightarrow>
     rpc_step s (s\<lparr>handler := c, calls := add_mset (sn, req) (calls s), begun := Suc (begun s)\<rparr>)"
| rpc_append: "(sn, req) \<in># calls s \<Longrightarrow> append_request (handler s) req sn (pool s) = (p, reply) \<Longrightarrow>
     rpc_step s (s\<lparr>pool := p, calls := calls s - {#(sn, req)#}\<rparr>)"
| rpc_drain: "drain_pool (pool s) = (reqs, rest) \<Longrightarrow>
     rpc_step s (s\<lparr>pool := rest, handed := handed s @ reqs\<rparr>)"

inductive_cases rpc_stepE: "rpc_step s t"

text \<open>Every number ever given out, wherever its request is now.\<close>

definition numbers :: "rpc_state \<Rightarrow> u64 multiset" where
  "numbers s = mset (map SN (pool s)) + image_mset fst (calls s) + mset (map SN (handed s))"

definition rpc_inv :: "rpc_state \<Rightarrow> bool" where
  "rpc_inv s \<longleftrightarrow> nextSN (handler s) = word_of_nat (begun s) \<and>
     numbers s = image_mset word_of_nat (mset [0..<begun s])"

lemma numbers_append:
  assumes "(sn, req) \<in># calls s" and "append_request (handler s) req sn (pool s) = (p, reply)"
  shows "numbers (s\<lparr>pool := p, calls := calls s - {#(sn, req)#}\<rparr>) = numbers s"
proof -
  obtain M where "calls s = add_mset (sn, req) M"
    using assms(1) by (metis insert_DiffM)
  with assms(2) show ?thesis by (auto simp: numbers_def append_request_def)
qed

lemma numbers_drain:
  assumes "drain_pool (pool s) = (reqs, rest)"
  shows "numbers (s\<lparr>pool := rest, handed := handed s @ reqs\<rparr>) = numbers s"
proof -
  from assms have "pool s = reqs @ rest" by (simp add: drain_pool_split)
  then show ?thesis by (simp add: numbers_def)
qed

lemma rpc_inv_step: "rpc_inv s \<Longrightarrow> rpc_step s t \<Longrightarrow> rpc_inv t"
  by (erule rpc_step.cases)
    (auto simp: rpc_inv_def numbers_append numbers_drain, auto simp: take_SN_def numbers_def)

interpretation rpc: inductive_invariant rpc_init rpc_step rpc_inv
  by unfold_locales (simp add: rpc_inv_def rpc_init_def numbers_def, rule rpc_inv_step)

lemma inj_on_word_of_nat:
  assumes "n \<le> 2 ^ 64"
  shows "inj_on (word_of_nat :: nat \<Rightarrow> u64) {0..<n}"
proof (rule inj_onI)
  fix x y assume "x \<in> {0..<n}" "y \<in> {0..<n}" and eq: "(word_of_nat x :: u64) = word_of_nat y"
  then have "x < 2 ^ 64" "y < 2 ^ 64" using assms by auto
  then show "x = y" using arg_cong [OF eq, of unat] by (simp add: unat_of_nat)
qed

lemma rpc_numbers_distinct:
  assumes "reachable rpc_init rpc_step s" and "begun s \<le> 2 ^ 64"
  shows "mset (map SN (pool s)) + image_mset fst (calls s) + mset (map SN (handed s)) =
      mset_set (word_of_nat ` {0..<begun s})"
proof -
  from rpc.inv_reachable [OF assms(1)]
  have "numbers s = image_mset word_of_nat (mset_set {0..<begun s})"
    by (simp add: rpc_inv_def)
  with assms(2) show ?thesis
    by (simp add: numbers_def image_mset_mset_set inj_on_word_of_nat)
qed

end
