(* ===== verification/Block.thy ===== *)
theory Block
  imports Sign Rpc_Handler
begin

text \<open>
  \<open>core/block.go\<close>, \<open>core/vote.go\<close>, \<open>core/msg_type.go\<close> and the hashing of
  \<open>core/utils.go\<close>: blocks, blocks with a quorum certificate, votes, their hashes and
  their comparison.
\<close>

record Block =
  Proposer :: string
  Height :: u64
  PreviousHash :: gobytes
  Cmds :: "RequestWrappedByServer slice"

text \<open>The struct embeds \<open>Block\<close>; its field is \<open>bq_Block\<close>.\<close>

record BlockWithQC =
  bq_Block :: Block
  QC :: gobytes

record PlainVote =
  BlockHash :: gobytes
  BlockHeight :: u64
  Opinion :: bool

record VoteWithPartialSig =
  v_PlainVote :: PlainVote
  Sender :: string
  PartialSig :: gobytes

definition ProposalTag :: u8 where "ProposalTag = 0"
definition VoteTag :: u8 where "VoteTag = 1"
definition SortitionTag :: u8 where "SortitionTag = 2"

section \<open>JSON forms and hashes\<close>

definition goval_of_Block :: "Block \<Rightarrow> goval" where
  "goval_of_Block b =
     GStruct [(''Proposer'', GString (Proposer b)),
              (''Height'', GUint (Height b)),
              (''PreviousHash'', go_bytes (PreviousHash b)),
              (''Cmds'', go_slice goval_of_Request (Cmds b))]"

definition goval_of_PlainVote :: "PlainVote \<Rightarrow> goval" where
  "goval_of_PlainVote v =
     GStruct [(''BlockHash'', go_bytes (BlockHash v)),
              (''BlockHeight'', GUint (BlockHeight v)),
              (''Opinion'', GBool (Opinion v))]"

definition goval_of_Vote :: "VoteWithPartialSig \<Rightarrow> goval" where
  "goval_of_Vote v =
     GStruct [(''BlockHash'', go_bytes (BlockHash (v_PlainVote v))),
              (''BlockHeight'', GUint (BlockHeight (v_PlainVote v))),
              (''Opinion'', GBool (Opinion (v_PlainVote v))),
              (''Sender'', GString (Sender v)),
              (''PartialSig'', go_bytes (PartialSig v))]"

definition genMsgHashSum :: "('ps, 'pp) crypto \<Rightarrow> bytes \<Rightarrow> error + bytes" where
  "genMsgHashSum c data = Inr (sha256 c data)"

definition getHash :: "('ps, 'pp) crypto \<Rightarrow> Block \<Rightarrow> error + bytes" where
  "getHash c b =
     (case encode (goval_of_Block b) of
        Inl err \<Rightarrow> Inl err
      | Inr encodedBlock \<Rightarrow> genMsgHashSum c encodedBlock)"

definition getHashAsString :: "('ps, 'pp) crypto \<Rightarrow> Block \<Rightarrow> error + string" where
  "getHashAsString c b =
     (case getHash c b of
        Inl err \<Rightarrow> Inl err
      | Inr hash \<Rightarrow> Inr (hex_EncodeToString hash))"

lemma supported_go_bytes [simp]: "supported (go_bytes s)"
  by (cases s) (simp_all add: go_bytes_def)

lemma supported_go_slice [simp]:
  "(\<And>x. supported (f x)) \<Longrightarrow> supported (go_slice f s)"
  by (cases s) (simp_all add: go_slice_def list_all_iff)

lemma supported_forms [simp]:
  "supported (goval_of_Request r)" "supported (goval_of_Block b)"
  "supported (goval_of_PlainVote p)" "supported (goval_of_Vote v)"
  by (simp_all add: goval_of_Request_def goval_of_Block_def goval_of_PlainVote_def
      goval_of_Vote_def)

text \<open>The digest of a block, and the string its map entries are filed under.\<close>

definition block_hash :: "('ps, 'pp) crypto \<Rightarrow> Block \<Rightarrow> bytes" where
  "block_hash c b = sha256 c (json_bytes (goval_of_Block b))"

definition block_key :: "('ps, 'pp) crypto \<Rightarrow> Block \<Rightarrow> string" where
  "block_key c b = hex_EncodeToString (block_hash c b)"

lemma getHash_eq [simp]: "getHash c b = Inr (block_hash c b)"
  by (simp add: getHash_def genMsgHashSum_def block_hash_def)

lemma getHashAsString_eq [simp]: "getHashAsString c b = Inr (block_key c b)"
  by (simp add: getHashAsString_def block_key_def)

section \<open>Construction and printing\<close>

definition NewBlock ::
  "string \<Rightarrow> u64 \<Rightarrow> gobytes \<Rightarrow> RequestWrappedByServer slice \<Rightarrow> Block" where
  "NewBlock proposer height previousHash requests =
     (let requests = (case requests of None \<Rightarrow> Some [] | Some rs \<Rightarrow> Some rs)
      in \<lparr>Proposer = proposer, Height = height, PreviousHash = previousHash, Cmds = requests\<rparr>)"

definition Block_String :: "('ps, 'pp) crypto \<Rightarrow> Block \<Rightarrow> string" where
  "Block_String c b =
     (let currentHash = ignore_err [] (getHash c b) in
      ''{height: '' @ decimal (unat (Height b)) @ '', proposer: '' @ Proposer b @
      '', previosHash: '' @ hex_EncodeToString (contents (PreviousHash b)) @
      '', currentHash: '' @ hex_EncodeToString currentHash @ ''}; '')"

definition BlockWithQC_String :: "('ps, 'pp) crypto \<Rightarrow> BlockWithQC \<Rightarrow> string" where
  "BlockWithQC_String c bwq =
     (let currentHash = ignore_err [] (getHash c (bq_Block bwq)) in
      ''{height: '' @ decimal (unat (Height (bq_Block bwq))) @ '', proposer: '' @
      Proposer (bq_Block bwq) @
      '', previosHash: '' @ hex_EncodeToString (contents (PreviousHash (bq_Block bwq))) @
      '', currentHash: '' @ hex_EncodeToString currentHash @ ''}; '')"

section \<open>Comparison\<close>

text \<open>
  The loop over the commands, with the test as the source has it: the error is returned
  where the commands at an index are equal.
\<close>

fun Cmds_loop ::
  "nat \<Rightarrow> RequestWrappedByServer list \<Rightarrow> RequestWrappedByServer list \<Rightarrow> error + bool" where
  "Cmds_loop i (cmd # cs) (cmd2 # cs2) =
     (if RequestWrappedByServer_Equal cmd cmd2 then Inl (ErrCmdsDifferAt i)
      else Cmds_loop (Suc i) cs cs2)"
| "Cmds_loop i _ _ = Inr True"

definition Block_Equal :: "Block \<Rightarrow> Block \<Rightarrow> error + bool" where
  "Block_Equal b b2 =
     (if Proposer b \<noteq> Proposer b2 then Inl (ErrProposersDiffer (Proposer b) (Proposer b2))
      else if Height b \<noteq> Height b2 then Inl (ErrHeightsDiffer (Height b) (Height b2))
      else if \<not> bytes_Equal (PreviousHash b) (PreviousHash b2) then Inl ErrPreviousHashesDiffer
      else (case Cmds b of
        None \<Rightarrow> (case Cmds b2 of None \<Rightarrow> Inr True | Some _ \<Rightarrow> Inl ErrOneCmdsNil)
      | Some cs \<Rightarrow> (case Cmds b2 of
          None \<Rightarrow> Inl ErrOneCmdsNil
        | Some cs2 \<Rightarrow>
            if length cs \<noteq> length cs2 then Inl ErrCmdsLengthsDiffer
            else Cmds_loop 0 cs cs2)))"

definition BlockWithQC_Equal :: "BlockWithQC \<Rightarrow> BlockWithQC \<Rightarrow> error + bool" where
  "BlockWithQC_Equal bwq b2 =
     (case Block_Equal (bq_Block bwq) (bq_Block b2) of
        Inl err \<Rightarrow> Inl err
      | Inr _ \<Rightarrow> if bytes_Equal (QC bwq) (QC b2) then Inr True else Inl ErrQCsDiffer)"

section \<open>Certificates\<close>

definition createIntactSig ::
  "('ps, 'pp) crypto \<Rightarrow> goval \<Rightarrow> gobytes list \<Rightarrow> 'pp \<Rightarrow> int \<Rightarrow> int \<Rightarrow> (error + bytes) outcome" where
  "createIntactSig c msgBody partialSigs pubPloy quorumNum nodeNum =
     (case encode msgBody of
        Inl err \<Rightarrow> Ret (Inl err)
      | Inr encodedBytes \<Rightarrow>
          bind_outcome (AssembleIntactTSPartial c partialSigs pubPloy encodedBytes quorumNum nodeNum)
            (\<lambda>intactSig. Ret (Inr intactSig)))"

end
