(* ===== verification/Chain.thy ===== *)
theory Chain
  imports Block
begin

text \<open>
  \<open>core/chain.go\<close>: the chain of committed blocks and the candidate chain. The maps of
  blocks inside the candidate chain are shared with the node's pending blocks (Go maps
  are references), so a candidate chain holds references into a store of such maps,
  \<open>block_maps\<close>, and every read goes through it.
\<close>

section \<open>The committed chain\<close>

record Chain =
  chain_blocks :: "(u64, BlockWithQC) fmap"
  chain_height :: u64

text \<open>
  \<open>Chain.String\<close>: the loop runs \<open>i\<close> over the Go \<open>int\<close>s from 0 to \<open>int(height)\<close>; a
  height with no block is a nil pointer, whose \<open>String\<close> panics.
\<close>

fun Chain_String_loop ::
  "('ps, 'pp) crypto \<Rightarrow> (u64, BlockWithQC) fmap \<Rightarrow> nat list \<Rightarrow> string outcome" where
  "Chain_String_loop c bs [] = Ret []"
| "Chain_String_loop c bs (i # is) =
     (case fmlookup bs (word_of_nat i) of
        None \<Rightarrow> Panic NilDereference
      | Some b \<Rightarrow> bind_outcome (Chain_String_loop c bs is)
          (\<lambda>rest. Ret (BlockWithQC_String c b @ rest)))"

definition Chain_String :: "('ps, 'pp) crypto \<Rightarrow> Chain \<Rightarrow> string outcome" where
  "Chain_String c chain =
     Chain_String_loop c (chain_blocks chain) [0..<nat (sint (chain_height chain) + 1)]"

text \<open>
  The comparison loops visit the entries of the first chain in the order of \<open>range\<close>;
  a height the second chain lacks is a nil pointer.
\<close>

fun Equal_loop ::
  "('b \<Rightarrow> 'b \<Rightarrow> error + bool) \<Rightarrow> (u64, 'b) fmap \<Rightarrow> (u64 \<times> 'b) list \<Rightarrow> (error + bool) outcome"
where
  "Equal_loop eq bs2 [] = Ret (Inr True)"
| "Equal_loop eq bs2 ((i, block1) # rest) =
     (case fmlookup bs2 i of
        None \<Rightarrow> Panic NilDereference
      | Some block2 \<Rightarrow> (case eq block1 block2 of
          Inl err \<Rightarrow> Ret (Inl err)
        | Inr _ \<Rightarrow> Equal_loop eq bs2 rest))"

definition Chain_Equal ::
  "(u64 \<times> BlockWithQC) list \<Rightarrow> Chain \<Rightarrow> Chain \<Rightarrow> (error + bool) outcome" where
  "Chain_Equal order chain chain2 =
     (if map_len (chain_blocks chain) \<noteq> map_len (chain_blocks chain2) \<or>
         chain_height chain \<noteq> chain_height chain2
      then Ret (Inl ErrChainHeightDiffers)
      else Equal_loop BlockWithQC_Equal (chain_blocks chain2) order)"

definition Chain_EqualIgnoreQC ::
  "(u64 \<times> BlockWithQC) list \<Rightarrow> Chain \<Rightarrow> Chain \<Rightarrow> (error + bool) outcome" where
  "Chain_EqualIgnoreQC order chain chain2 =
     (if map_len (chain_blocks chain) \<noteq> map_len (chain_blocks chain2) \<or>
         chain_height chain \<noteq> chain_height chain2
      then Ret (Inl ErrChainHeightDiffers)
      else Equal_loop (\<lambda>b1 b2. Block_Equal (bq_Block b1) (bq_Block b2))
             (chain_blocks chain2) order)"

section \<open>The candidate chain\<close>

type_synonym mapref = nat
type_synonym block_maps = "mapref \<Rightarrow> (string, Block) fmap"

record CandidateChain =
  cc_blocks :: "(u64, mapref) fmap"
  cc_height :: u64

definition cc_lookup :: "block_maps \<Rightarrow> CandidateChain \<Rightarrow> u64 \<Rightarrow> (string, Block) fmap option" where
  "cc_lookup maps cc h = map_option maps (fmlookup (cc_blocks cc) h)"

text \<open>\<open>blocks[height][hash]\<close>: a missing height reads as an empty map.\<close>

definition cc_block :: "block_maps \<Rightarrow> CandidateChain \<Rightarrow> u64 \<Rightarrow> string \<Rightarrow> Block option" where
  "cc_block maps cc h hash =
     (case cc_lookup maps cc h of None \<Rightarrow> None | Some m \<Rightarrow> fmlookup m hash)"

text \<open>
  \<open>selectBlock\<close>: \<open>ranNum\<close> is what \<open>rand.Intn\<close> returned and \<open>order\<close> the order of the
  \<open>range\<close> over the blocks of the highest height.
\<close>

fun select_loop :: "nat \<Rightarrow> nat \<Rightarrow> (string \<times> Block) list \<Rightarrow> error + Block" where
  "select_loop ranNum i [] = Inl ErrSelectBlock"
| "select_loop ranNum i ((hash, block) # rest) =
     (if i = ranNum then Inr block else select_loop ranNum (Suc i) rest)"

definition selectBlock ::
  "block_maps \<Rightarrow> CandidateChain \<Rightarrow> nat \<Rightarrow> (string \<times> Block) list \<Rightarrow> error + Block" where
  "selectBlock maps cc ranNum order =
     (case cc_lookup maps cc (cc_height cc) of
        None \<Rightarrow> Inl ErrNoBlockAtHeight
      | Some highBlocks \<Rightarrow>
          if map_len highBlocks = 0 then Inl ErrNoBlockAtHeight
          else select_loop ranNum 0 order)"

text \<open>\<open>CandidateChain.String\<close>: the loop stops before \<open>int(height)\<close>.\<close>

definition CandidateChain_String ::
  "('ps, 'pp) crypto \<Rightarrow> (nat \<Rightarrow> (string \<times> Block) list) \<Rightarrow> CandidateChain \<Rightarrow> string" where
  "CandidateChain_String c order cc =
     concat (map (\<lambda>i. ''[Height: '' @ decimal i @ ''...]'' @
         concat (map (\<lambda>(hash, block). Block_String c block) (order i)) @ ''          '')
       [0..<nat (sint (cc_height cc))])"

section \<open>Lemmas\<close>

lemma Equal_loop_Ret:
  assumes "\<forall>(i, b) \<in> set order. i |\<in>| fmdom bs2"
  shows "\<exists>r. Equal_loop eq bs2 order = Ret r"
  using assms
  by (induction eq bs2 order rule: Equal_loop.induct)
    (auto simp: fmlookup_dom_iff split: sum.splits)

lemma Equal_loop_True_iff:
  "Equal_loop eq bs2 order = Ret (Inr True) \<longleftrightarrow>
     (\<forall>(i, b1) \<in> set order. \<exists>b2 v. fmlookup bs2 i = Some b2 \<and> eq b1 b2 = Inr v)"
  by (induction eq bs2 order rule: Equal_loop.induct) (auto split: option.splits sum.splits)

lemma select_loop_nth:
  "i \<le> ranNum \<Longrightarrow> ranNum < i + length order \<Longrightarrow>
     select_loop ranNum i order = Inr (snd (order ! (ranNum - i)))"
proof (induction ranNum i order rule: select_loop.induct)
  case (2 ranNum i hash block rest)
  then show ?case
    by (cases "i = ranNum") (auto simp: Suc_diff_Suc nth_Cons')
qed simp

lemma selectBlock_Inr:
  assumes "cc_lookup maps cc (cc_height cc) = Some m"
    and "map_order m order" and "ranNum < map_len m"
  shows "selectBlock maps cc ranNum order = Inr (snd (order ! ranNum))"
    and "fmlookup m (fst (order ! ranNum)) = Some (snd (order ! ranNum))"
proof -
  from assms have len: "ranNum < length order" by (simp add: map_order_length)
  then show "selectBlock maps cc ranNum order = Inr (snd (order ! ranNum))"
    using assms by (auto simp: selectBlock_def select_loop_nth)
  from len have "(fst (order ! ranNum), snd (order ! ranNum)) \<in> set order" by simp
  then show "fmlookup m (fst (order ! ranNum)) = Some (snd (order ! ranNum))"
    using map_order_lookup [OF assms(2)] by blast
qed

lemma Chain_String_loop_Ret:
  assumes "\<forall>i \<in> set is. word_of_nat i |\<in>| fmdom bs"
  shows "\<exists>s. Chain_String_loop c bs is = Ret s"
  using assms
proof (induction "is")
  case (Cons i js)
  then show ?case by (auto simp: fmlookup_dom_iff)
qed simp

end
