(* ===== verification/Sortition.thy ===== *)
theory Sortition
  imports Sign Go_Float
begin

text \<open>
  \<open>sortition/sortition_utils.go\<close>: a node draws lots with a verifiable random function;
  the ratio of the function's output to \<open>2 ^ 256 - 1\<close>, a \<open>float64\<close>, is compared with a
  threshold.
\<close>

record Sortitioner =
  threshold :: float64
  s_pubKey :: bytes
  s_privKey :: bytes

definition NewSortitioner :: "float64 \<Rightarrow> bytes \<Rightarrow> bytes \<Rightarrow> error + Sortitioner" where
  "NewSortitioner thr pubKey privKey =
     (if thr < Fin 0 \<or> Fin 1 < thr then Inl ErrThresholdInvalid
      else Inr \<lparr>threshold = thr, s_pubKey = pubKey, s_privKey = privKey\<rparr>)"

text \<open>\<open>big.Int.SetBytes\<close>: big-endian.\<close>

definition int_SetBytes :: "bytes \<Rightarrow> nat" where
  "int_SetBytes bs = foldl (\<lambda>a b. 256 * a + unat b) 0 bs"

definition HashRatio :: "bytes \<Rightarrow> float64" where
  "HashRatio vrfOutput =
     (let t = int_SetBytes vrfOutput;
          precision = 8 * (length vrfOutput + 1);
          max = round_float precision (of_int (2 ^ 256 - 1));
          h = round_float precision (of_int (int t));
          ratio = round_float precision (h / max)
      in to_float64 ratio)"

definition Once :: "('ps, 'pp) crypto \<Rightarrow> Sortitioner \<Rightarrow> u64 \<Rightarrow> bool \<times> gobytes" where
  "Once c s num =
     (let numAsString = decimal (unat num) in
      case vrf_Prove c (s_pubKey s) (s_privKey s) (bytes_of_string numAsString) of
        Inl err \<Rightarrow> (False, None)
      | Inr (proof, output) \<Rightarrow>
          if HashRatio output < threshold s then (True, Some proof) else (False, None))"

record SortitionMsg =
  sm_Sortitioner :: string
  sm_Height :: u64
  sm_Round :: u64
  sm_Result :: bool

definition NewSortitionMsg :: "string \<Rightarrow> u64 \<Rightarrow> u64 \<Rightarrow> SortitionMsg" where
  "NewSortitionMsg node height rnd =
     \<lparr>sm_Sortitioner = node, sm_Height = height, sm_Round = rnd, sm_Result = False\<rparr>"

definition goval_of_SortitionMsg :: "SortitionMsg \<Rightarrow> goval" where
  "goval_of_SortitionMsg m =
     GStruct [(''Sortitioner'', GString (sm_Sortitioner m)),
              (''Height'', GUint (sm_Height m)),
              (''Round'', GUint (sm_Round m)),
              (''Result'', GBool (sm_Result m))]"

lemma supported_SortitionMsg [simp]: "supported (goval_of_SortitionMsg m)"
  by (simp add: goval_of_SortitionMsg_def)

section \<open>The ratio\<close>

lemma int_SetBytes_append:
  "foldl (\<lambda>a b. 256 * a + unat b) n bs < (n + 1) * 256 ^ length (bs :: bytes)"
proof (induction bs arbitrary: n)
  case (Cons b bs)
  have "256 * n + unat b + 1 \<le> 256 * (n + 1)" using unat_u8_less [of b] by simp
  then have "(256 * n + unat b + 1) * 256 ^ length bs \<le> 256 * (n + 1) * 256 ^ length bs"
    by (rule mult_le_mono1)
  with Cons [of "256 * n + unat b"]
  have "foldl (\<lambda>a b. 256 * a + unat b) (256 * n + unat b) bs < 256 * (n + 1) * 256 ^ length bs"
    by (rule less_le_trans)
  then show ?case by (simp add: algebra_simps)
qed simp

lemma int_SetBytes_less: "int_SetBytes bs < 2 ^ (8 * length bs)"
  using int_SetBytes_append [of 0 bs] by (simp add: int_SetBytes_def power_mult)

lemma round_float_unit:
  assumes "0 \<le> x" "x \<le> 1" "0 < p"
  shows "0 \<le> round_float p x" and "round_float p x \<le> 1"
proof -
  have "0 \<le> round_float p x \<and> round_float p x \<le> 1"
  proof (cases "x = 0")
    case False
    with assms have x: "0 < x" by simp
    have "x < 2 ^ p" using assms(2,3) one_less_power [of "2 :: rat" p] by linarith
    then have "round_float p x \<le> of_int 1"
      using x assms(2) by (intro round_float_le_int) simp_all
    moreover have "0 < round_float p x"
      using round_float_ge_power [OF x assms(3)] powi_2_pos [of "ilog2 x"] by linarith
    ultimately show ?thesis by simp
  qed simp
  then show "0 \<le> round_float p x" and "round_float p x \<le> 1" by simp_all
qed

text \<open>The rounded constant is never below an output that fits in 32 bytes.\<close>

lemma output_le_max:
  assumes "length bs \<le> 32"
  shows "of_int (int (int_SetBytes bs)) \<le> round_float (8 * (length bs + 1)) (of_int (2 ^ 256 - 1))"
proof (cases "length bs = 32")
  case True
  have "int (int_SetBytes bs) < 2 ^ (8 * length bs)"
    using int_SetBytes_less [of bs] by (metis of_nat_less_iff of_nat_numeral of_nat_power)
  then have "int (int_SetBytes bs) < 2 ^ 256" using True by simp
  moreover have "round_float (8 * (length bs + 1)) (of_int (2 ^ 256 - 1)) = of_int (2 ^ 256 - 1)"
    using True by (intro round_float_int) simp_all
  ultimately show ?thesis by (simp only: of_int_le_iff)
next
  case False
  let ?m = "of_int (2 ^ 256 - 1) :: rat"
  have m: "0 < ?m" by simp
  have "int (int_SetBytes bs) < 2 ^ (8 * length bs)"
    using int_SetBytes_less [of bs] by (metis of_nat_less_iff of_nat_numeral of_nat_power)
  also have "(2 :: int) ^ (8 * length bs) \<le> 2 ^ 255"
    using assms False by (intro power_increasing) simp_all
  finally have "(of_int (int (int_SetBytes bs)) :: rat) \<le> of_int (2 ^ 255)"
    by (simp only: of_int_le_iff)
  also have "\<dots> = 2 powi 255" by simp
  also have "\<dots> \<le> 2 powi ilog2 ?m"
    by (intro power_int_increasing ilog2_ge) simp_all
  also have "\<dots> \<le> round_float (8 * (length bs + 1)) ?m"
    by (intro round_float_ge_power m) simp
  finally show ?thesis .
qed

lemma to_float64_unit:
  assumes "0 \<le> x" "x \<le> 1"
  shows "\<exists>r. to_float64 x = Fin r \<and> 0 \<le> r \<and> r \<le> 1"
proof -
  note r = round_float_unit [OF assms, of 53, simplified]
  have "(1 :: rat) < 2 ^ 1024" by (rule one_less_power) simp_all
  with r have "\<not> 2 ^ 1024 \<le> round_float 53 x" "\<not> round_float 53 x \<le> - (2 ^ 1024)"
    by linarith+
  with r show ?thesis by (simp only: to_float64_def Let_def if_False) blast
qed

lemma HashRatio_unit:
  assumes "length bs \<le> 32"
  shows "\<exists>r. HashRatio bs = Fin r \<and> 0 \<le> r \<and> r \<le> 1"
proof -
  define p where "p = 8 * (length bs + 1)"
  define h where "h = (of_int (int (int_SetBytes bs)) :: rat)"
  define m where "m = round_float p (of_int (2 ^ 256 - 1))"
  have p: "0 < p" by (simp add: p_def)
  have "int (int_SetBytes bs) < 2 ^ (8 * length bs)"
    using int_SetBytes_less [of bs] by (metis of_nat_less_iff of_nat_numeral of_nat_power)
  also have "(2 :: int) ^ (8 * length bs) \<le> 2 ^ p"
    unfolding p_def by (intro power_increasing) simp_all
  finally have hp: "round_float p h = h"
    unfolding h_def by (intro round_float_int) simp_all
  have "0 \<le> h" by (simp add: h_def)
  moreover have "h \<le> m" unfolding h_def m_def p_def by (rule output_le_max [OF assms])
  ultimately have "0 \<le> h / m" "h / m \<le> 1" by (auto simp: divide_le_eq_1)
  then have "0 \<le> round_float p (h / m)" "round_float p (h / m) \<le> 1"
    using p by (rule round_float_unit)+
  then obtain r where r: "to_float64 (round_float p (h / m)) = Fin r" "0 \<le> r" "r \<le> 1"
    using to_float64_unit by blast
  have "HashRatio bs = to_float64 (round_float p (round_float p h / m))"
    by (simp only: HashRatio_def Let_def m_def h_def p_def)
  with r hp show ?thesis by auto
qed

end
