(* ===== verification/Node.thy ===== *)
theory Node
  imports Chain Sortition Config
begin

text \<open>
  \<open>core/node.go\<close>: the state of a node and its handlers. Each handler is the body of a
  goroutine between two acquisitions of the node's lock, so it runs atomically with
  respect to the others. A handler returns the new state, the goroutines it starts with
  \<open>go\<close> (and, where it releases the lock and goes on, its own continuation) and the
  messages it broadcasts; a panic ends the process.

  A Go map is a reference. \<open>tryExtendCandidateChain\<close> makes the candidate chain share the
  map of a height with \<open>pendingBlocks\<close>, and later writes through either are seen through
  both. So the maps from hashes to blocks live in a store, \<open>block_store\<close>, and
  \<open>pendingBlocks\<close> and \<open>candidateChain\<close> hold references into it; \<open>make\<close> takes
  \<open>next_map\<close>. Maps that are never shared are plain values.
\<close>

section \<open>State\<close>

record ('ps, 'pp) node =
  node_name :: string
  chain :: Chain
  candidateChain :: CandidateChain
  candidateHeightUpdated :: "u64 list"
  voted :: "(u64, bool) fmap"
  pendingBlocksQC :: "(u64, BlockWithQC) fmap"
  pendingBlocks :: "(u64, mapref) fmap"
  partialSigs :: "(u64, (string, (string, gobytes) fmap) fmap) fmap"
  qcCreated :: "(u64, bool) fmap"
  sortitionResult :: "(u64, (u64, (string, bool) fmap) fmap) fmap"
  clusterAddr :: "(string, string) fmap"
  clusterPort :: "(string, int) fmap"
  nodeNum :: int
  quorumNum :: int
  node_addr :: string
  node_p2pListenPort :: int
  node_rpcListenPort :: int
  requestPool :: RequestPool
  node_c :: RPCHandler
  node_canProposeBlock :: bool
  node_maxPool :: int
  sortitioner :: Sortitioner
  node_sortitionEnabled :: bool
  publicKeyMap :: "(string, bytes) fmap"
  privateKey :: bytes
  tsPublicKey :: 'pp
  tsPrivateKey :: 'ps
  block_store :: block_maps
  next_map :: mapref
  lock_kept :: bool

text \<open>
  \<open>lock_kept\<close> records that a goroutine returned without releasing the node's lock, after
  which no goroutine acquires it again. \<open>candidateHeightUpdated\<close> is the content of a
  channel with room for one element.
\<close>

text \<open>Messages a node broadcasts and receives (\<open>reflectedTypesMap\<close>).\<close>

datatype message = MsgBlock Block | MsgVote VoteWithPartialSig | MsgSortition SortitionMsg

fun msg_tag :: "message \<Rightarrow> u8" where
  "msg_tag (MsgBlock _) = ProposalTag"
| "msg_tag (MsgVote _) = VoteTag"
| "msg_tag (MsgSortition _) = SortitionTag"

fun goval_of_message :: "message \<Rightarrow> goval" where
  "goval_of_message (MsgBlock b) = goval_of_Block b"
| "goval_of_message (MsgVote v) = goval_of_Vote v"
| "goval_of_message (MsgSortition m) = goval_of_SortitionMsg m"

lemma supported_message [simp]: "supported (goval_of_message m)"
  by (cases m) simp_all

text \<open>Goroutines, by the function they are about to run.\<close>

datatype task =
    HandleNewBlockMsg Block
  | HandleNewBlock Block
  | BroadcastVote Block
  | CastVote Block VoteWithPartialSig
  | TryUpdateCandidateChain Block
  | TryExtendCandidateChain
  | SendHeight u64
  | HandleVoteMsg VoteWithPartialSig
  | CheckIfQuorumVotes u64 string
  | BuildBlockWithQC u64 string
  | HandleNewBlockQC BlockWithQC
  | CommitAncestor BlockWithQC
  | TryExtendChain
  | HandleSortitionMsg SortitionMsg

type_synonym ('ps, 'pp) effect = "('ps, 'pp) node \<times> task list \<times> message list"

section \<open>Creation\<close>

text \<open>\<open>int(math.Ceil(float64(2*len(n.clusterAddr)) / 3.0))\<close>\<close>

definition quorum_of :: "nat \<Rightarrow> int" where
  "quorum_of len = int_ceil (float64_div (float64_of_int (2 * int len)) (Fin 3))"

definition genesis :: Block where
  "genesis = \<lparr>Proposer = ''CivCrafter'', Height = 0, PreviousHash = Some [], Cmds = Some []\<rparr>"

definition NewNode :: "('ps, 'pp) crypto \<Rightarrow> ('ps, 'pp) Config \<Rightarrow> ('ps, 'pp) node outcome" where
  "NewNode c conf =
     (let block = genesis; hash = ignore_err [] (getHashAsString c block) in
      case NewSortitioner (conf_Probability conf)
             (case fmlookup (conf_PublicKeyMap conf) (conf_Name conf) of
                None \<Rightarrow> [] | Some k \<Rightarrow> k) (conf_PrivateKey conf) of
        Inl err \<Rightarrow> Panic (PanicError err)
      | Inr s \<Rightarrow> Ret
         \<lparr>node_name = conf_Name conf,
          chain = \<lparr>chain_blocks = fmupd 0 \<lparr>bq_Block = genesis, QC = Some []\<rparr> fmempty,
                   chain_height = 0\<rparr>,
          candidateChain = \<lparr>cc_blocks = fmupd 0 0 fmempty, cc_height = 0\<rparr>,
          candidateHeightUpdated = [0],
          voted = fmempty, pendingBlocksQC = fmempty, pendingBlocks = fmempty,
          partialSigs = fmempty, qcCreated = fmempty, sortitionResult = fmempty,
          clusterAddr = conf_ClusterAddr conf, clusterPort = conf_ClusterPort conf,
          nodeNum = int (map_len (conf_ClusterAddr conf)),
          quorumNum = quorum_of (map_len (conf_ClusterAddr conf)),
          node_addr = conf_AddrStr conf, node_p2pListenPort = conf_P2PListenPort conf,
          node_rpcListenPort = conf_RPCListenPort conf, requestPool = [],
          node_c = \<lparr>nodeName = conf_Name conf, nextSN = 0\<rparr>,
          node_canProposeBlock = conf_CanProposeBlock conf, node_maxPool = conf_MaxPool conf,
          sortitioner = s, node_sortitionEnabled = False,
          publicKeyMap = conf_PublicKeyMap conf, privateKey = conf_PrivateKey conf,
          tsPublicKey = conf_TsPublicKey conf, tsPrivateKey = conf_TsPrivateKey conf,
          block_store = (\<lambda>r. if r = 0 then fmupd hash block fmempty else fmempty),
          next_map = 1, lock_kept = False\<rparr>)"

section \<open>Reading the shared maps\<close>

definition pending_lookup :: "('ps, 'pp) node \<Rightarrow> u64 \<Rightarrow> (string, Block) fmap option" where
  "pending_lookup n h = map_option (block_store n) (fmlookup (pendingBlocks n) h)"

text \<open>\<open>n.pendingBlocks[height][hash]\<close>\<close>

definition pending_block :: "('ps, 'pp) node \<Rightarrow> u64 \<Rightarrow> string \<Rightarrow> Block option" where
  "pending_block n h hash =
     (case pending_lookup n h of None \<Rightarrow> None | Some m \<Rightarrow> fmlookup m hash)"

text \<open>\<open>n.partialSigs[height][hash]\<close>\<close>

definition votes_for :: "('ps, 'pp) node \<Rightarrow> u64 \<Rightarrow> string \<Rightarrow> (string, gobytes) fmap" where
  "votes_for n h hash = lookup_nil (lookup_nil (partialSigs n) h) hash"

section \<open>Proposals\<close>

definition validateBlockMsg :: "('ps, 'pp) node \<Rightarrow> Block \<Rightarrow> bool" where
  "validateBlockMsg n block = True"

definition handleNewBlockMsg :: "('ps, 'pp) node \<Rightarrow> Block \<Rightarrow> ('ps, 'pp) effect" where
  "handleNewBlockMsg n block =
     (if \<not> validateBlockMsg n block then (n, [], [])
      else (n, [HandleNewBlock block, BroadcastVote block], []))"

text \<open>The map of pending blocks at a height, made if there is none.\<close>

definition ensure_pending ::
  "('ps, 'pp) node \<Rightarrow> u64 \<Rightarrow> ('ps, 'pp) node \<times> mapref" where
  "ensure_pending n height =
     (case fmlookup (pendingBlocks n) height of
        Some r \<Rightarrow> (n, r)
      | None \<Rightarrow>
          (n\<lparr>pendingBlocks := fmupd height (next_map n) (pendingBlocks n),
             block_store := (block_store n)(next_map n := fmempty),
             next_map := Suc (next_map n)\<rparr>, next_map n))"

definition handleNewBlock ::
  "('ps, 'pp) crypto \<Rightarrow> ('ps, 'pp) node \<Rightarrow> Block \<Rightarrow> ('ps, 'pp) effect" where
  "handleNewBlock c n block =
     (let (n1, r) = ensure_pending n (Height block);
          hash = ignore_err [] (getHashAsString c block);
          n2 = n1\<lparr>block_store := (block_store n1)(r := fmupd hash block (block_store n1 r))\<rparr>
      in (n2, [TryUpdateCandidateChain block, CheckIfQuorumVotes (Height block) hash], []))"

definition tryUpdateCandidateChain ::
  "('ps, 'pp) crypto \<Rightarrow> ('ps, 'pp) node \<Rightarrow> Block \<Rightarrow> ('ps, 'pp) effect" where
  "tryUpdateCandidateChain c n block =
     (case fmlookup (cc_blocks (candidateChain n)) (Height block) of
        Some r \<Rightarrow>
          (let blockHashAsString = ignore_err [] (getHashAsString c block) in
           (n\<lparr>block_store := (block_store n)
                (r := fmupd blockHashAsString block (block_store n r))\<rparr>, [], []))
      | None \<Rightarrow> (n, [TryExtendCandidateChain], []))"

definition tryExtendCandidateChain :: "('ps, 'pp) node \<Rightarrow> ('ps, 'pp) effect" where
  "tryExtendCandidateChain n =
     (let newHeight = cc_height (candidateChain n) + 1 in
      case fmlookup (pendingBlocks n) newHeight of
        Some blocks \<Rightarrow>
          (n\<lparr>candidateChain := \<lparr>cc_blocks = fmupd newHeight blocks (cc_blocks (candidateChain n)),
                                 cc_height = newHeight\<rparr>\<rparr>,
           [SendHeight newHeight, TryExtendCandidateChain], [])
      | None \<Rightarrow> (n, [], []))"

section \<open>Broadcasting\<close>

text \<open>The signature \<open>broadcast\<close> attaches to a message.\<close>

definition broadcast_sig ::
  "('ps, 'pp) crypto \<Rightarrow> ('ps, 'pp) node \<Rightarrow> message \<Rightarrow> (error + bytes) outcome" where
  "broadcast_sig c n m =
     (case encode (goval_of_message m) of
        Inl err \<Rightarrow> Ret (Inl err)
      | Inr msgAsBytes \<Rightarrow>
          bind_outcome (SignEd25519 c (privateKey n) msgAsBytes) (\<lambda>sig. Ret (Inr sig)))"

text \<open>
  What a call of \<open>broadcast\<close> starts to write to the peers, and how it can panic before it
  writes anything. Writing itself is modelled in \<open>Transport\<close>; it may take any time, and it
  ends early where a peer cannot be reached.
\<close>

definition broadcast_out ::
  "('ps, 'pp) crypto \<Rightarrow> ('ps, 'pp) node \<Rightarrow> message \<Rightarrow> message list outcome" where
  "broadcast_out c n msg =
     bind_outcome (broadcast_sig c n msg) (\<lambda>r. case r of Inl err \<Rightarrow> Ret [] | Inr sig \<Rightarrow> Ret [msg])"

lemma broadcast_out_eq:
  "broadcast_out c n msg = (if length (privateKey n) \<noteq> 64 then Panic BadKeyLength else Ret [msg])"
  by (cases msg) (simp_all add: broadcast_out_def broadcast_sig_def SignEd25519_def Let_def)

section \<open>Votes\<close>

definition signPlainVote ::
  "('ps, 'pp) crypto \<Rightarrow> ('ps, 'pp) node \<Rightarrow> PlainVote \<Rightarrow> (error + VoteWithPartialSig) outcome"
where
  "signPlainVote c n v =
     (case encode (goval_of_PlainVote v) of
        Inl err \<Rightarrow> Ret (Inl err)
      | Inr voteAsBytes \<Rightarrow>
          bind_outcome (SignTSPartial c (tsPrivateKey n) voteAsBytes)
            (\<lambda>partialSig. Ret (Inr \<lparr>v_PlainVote = v, Sender = node_name n,
                                    PartialSig = Some partialSig\<rparr>)))"

text \<open>The vote a node casts for a block: the plain part of it.\<close>

definition plain_vote :: "('ps, 'pp) crypto \<Rightarrow> Block \<Rightarrow> PlainVote" where
  "plain_vote c block =
     \<lparr>BlockHash = (case getHash c block of Inl _ \<Rightarrow> None | Inr hash \<Rightarrow> Some hash),
      BlockHeight = Height block, Opinion = True\<rparr>"

text \<open>
  \<open>BroadcastVote\<close> reads \<open>voted\<close> under the read lock, releases it to sign, and then
  checks again under the write lock before it votes: \<open>castVote\<close> is the second half, which
  holds that lock until \<open>broadcast\<close> returns.
\<close>

definition broadcastVote ::
  "('ps, 'pp) crypto \<Rightarrow> ('ps, 'pp) node \<Rightarrow> Block \<Rightarrow> ('ps, 'pp) effect outcome" where
  "broadcastVote c n block =
     (if lookup_bool (voted n) (Height block) then Ret (n, [], [])
      else bind_outcome (signPlainVote c n (plain_vote c block))
        (\<lambda>r. case r of Inl err \<Rightarrow> Ret (n, [], [])
             | Inr voteWithPartialSig \<Rightarrow> Ret (n, [CastVote block voteWithPartialSig], [])))"

definition castVote ::
  "('ps, 'pp) crypto \<Rightarrow> ('ps, 'pp) node \<Rightarrow> Block \<Rightarrow> VoteWithPartialSig \<Rightarrow>
   ('ps, 'pp) effect outcome" where
  "castVote c n block voteWithPartialSig =
     (if \<not> lookup_bool (voted n) (Height block)
      then
       (let n' = n\<lparr>voted := fmupd (Height block) True (voted n)\<rparr> in
        bind_outcome (broadcast_out c n' (MsgVote voteWithPartialSig)) (\<lambda>out. Ret (n', [], out)))
      else Ret (n, [], []))"

lemma castVote_eq:
  "castVote c n block v =
     (if lookup_bool (voted n) (Height block) then Ret (n, [], [])
      else if length (privateKey n) \<noteq> 64 then Panic BadKeyLength
      else Ret (n\<lparr>voted := fmupd (Height block) True (voted n)\<rparr>, [], [MsgVote v]))"
  by (simp add: castVote_def broadcast_out_eq Let_def)

definition validateVoteMsg :: "('ps, 'pp) node \<Rightarrow> VoteWithPartialSig \<Rightarrow> bool" where
  "validateVoteMsg n vote = True"

definition handleVoteMsg ::
  "('ps, 'pp) node \<Rightarrow> VoteWithPartialSig \<Rightarrow> ('ps, 'pp) effect" where
  "handleVoteMsg n vote =
     (if \<not> validateVoteMsg n vote then (n, [], [])
      else
       (let height = BlockHeight (v_PlainVote vote);
            parSigs = lookup_nil (partialSigs n) height;
            hashString = hex_EncodeToString (contents (BlockHash (v_PlainVote vote)));
            sigs = lookup_nil parSigs hashString
        in (n\<lparr>partialSigs := fmupd height
                (fmupd hashString (fmupd (Sender vote) (PartialSig vote) sigs) parSigs)
                (partialSigs n)\<rparr>,
            [CheckIfQuorumVotes height hashString], [])))"

definition checkIfQuorumVotes ::
  "('ps, 'pp) node \<Rightarrow> u64 \<Rightarrow> string \<Rightarrow> ('ps, 'pp) effect" where
  "checkIfQuorumVotes n height hashString =
     (let parSigs = votes_for n height hashString;
          ok = (pending_block n height hashString \<noteq> None) in
      if quorumNum n \<le> int (map_len parSigs) \<and> \<not> lookup_bool (qcCreated n) height \<and> ok
      then (n\<lparr>qcCreated := fmupd height True (qcCreated n)\<rparr>,
            [BuildBlockWithQC height hashString], [])
      else (n, [], []))"

section \<open>Certificates and the committed chain\<close>

text \<open>The loop counts \<open>num\<close> down from the quorum and stops where it is 0.\<close>

fun extractPartialSigs :: "int \<Rightarrow> (string \<times> gobytes) list \<Rightarrow> gobytes list" where
  "extractPartialSigs num [] = []"
| "extractPartialSigs num ((sender, parSig) # rest) =
     (if num = 0 then [] else parSig # extractPartialSigs (num - 1) rest)"

definition buildBlockWithQC ::
  "('ps, 'pp) crypto \<Rightarrow> (string \<times> gobytes) list \<Rightarrow> ('ps, 'pp) node \<Rightarrow> u64 \<Rightarrow> string \<Rightarrow>
   ('ps, 'pp) effect outcome" where
  "buildBlockWithQC c order n height hashString =
     (case pending_block n height hashString of
        None \<Rightarrow> Panic NilDereference
      | Some block \<Rightarrow>
          bind_outcome
            (createIntactSig c (goval_of_PlainVote (plain_vote c block))
               (extractPartialSigs (quorumNum n) order) (tsPublicKey n) (quorumNum n) (nodeNum n))
            (\<lambda>r. case r of
                 Inl err \<Rightarrow> Ret (n, [], [])
               | Inr intactSig \<Rightarrow>
                   Ret (n, [HandleNewBlockQC \<lparr>bq_Block = block, QC = Some intactSig\<rparr>], [])))"

text \<open>
  \<open>handleNewBlockQC\<close>: the branch for a block received before returns with the lock held.
  Otherwise the lock is released, and the same goroutine goes on with
  \<open>CommitAncestorByBlockQC\<close> and then starts \<open>tryExtendChain\<close>.
\<close>

definition handleNewBlockQC :: "('ps, 'pp) node \<Rightarrow> BlockWithQC \<Rightarrow> ('ps, 'pp) effect" where
  "handleNewBlockQC n bqc =
     (case fmlookup (pendingBlocksQC n) (Height (bq_Block bqc)) of
        Some _ \<Rightarrow> (n\<lparr>lock_kept := True\<rparr>, [], [])
      | None \<Rightarrow>
          (n\<lparr>pendingBlocksQC := fmupd (Height (bq_Block bqc)) bqc (pendingBlocksQC n)\<rparr>,
           [CommitAncestor bqc], []))"

text \<open>
  The loop from the parent of the certified block down to the committed height; a block
  the candidate chain lacks leaves a nil pointer for the next iteration.
\<close>

function commit_loop ::
  "(u64 \<Rightarrow> string \<Rightarrow> Block option) \<Rightarrow> gobytes \<Rightarrow> u64 \<Rightarrow> u64 \<Rightarrow> Block option \<Rightarrow>
   (u64, BlockWithQC) fmap \<Rightarrow> (u64, BlockWithQC) fmap outcome" where
  "commit_loop candidates qc height i block blocks =
     (if height < i then
        (case block of
           None \<Rightarrow> Panic NilDereference
         | Some b \<Rightarrow>
             commit_loop candidates qc height (i - 1)
               (candidates (i - 1) (hex_EncodeToString (contents (PreviousHash b))))
               (fmupd i \<lparr>bq_Block = b, QC = qc\<rparr> blocks))
      else Ret blocks)"
  by pat_completeness auto
termination
  by (relation "measure (\<lambda>(candidates, qc, height, i, block, blocks). unat i)")
    (auto intro: unat_dec_less)

declare commit_loop.simps [simp del]

definition CommitAncestorByBlockQC ::
  "('ps, 'pp) node \<Rightarrow> BlockWithQC \<Rightarrow> ('ps, 'pp) node outcome" where
  "CommitAncestorByBlockQC n bqc =
     (if map_len (chain_blocks (chain n)) = map_len (cc_blocks (candidateChain n)) then Ret n
      else
       (let previousHash = PreviousHash (bq_Block bqc);
            previousHeight = Height (bq_Block bqc) - 1;
            hash = hex_EncodeToString (contents previousHash) in
        case cc_lookup (block_store n) (candidateChain n) previousHeight of
          None \<Rightarrow> Ret n
        | Some blocks \<Rightarrow> (case fmlookup blocks hash of
            None \<Rightarrow> Ret n
          | Some block \<Rightarrow>
              bind_outcome
                (commit_loop (cc_block (block_store n) (candidateChain n)) (QC bqc)
                   (chain_height (chain n)) previousHeight (Some block) (chain_blocks (chain n)))
                (\<lambda>blocks'. Ret (n\<lparr>chain := \<lparr>chain_blocks = blocks',
                                            chain_height = previousHeight\<rparr>\<rparr>)))))"

definition tryExtendChain :: "('ps, 'pp) node \<Rightarrow> ('ps, 'pp) effect" where
  "tryExtendChain n =
     (let newHeight = chain_height (chain n) + 1 in
      case fmlookup (pendingBlocksQC n) newHeight of
        Some blockWithQC \<Rightarrow>
          (n\<lparr>chain := \<lparr>chain_blocks = fmupd newHeight blockWithQC (chain_blocks (chain n)),
                        chain_height = newHeight\<rparr>,
              pendingBlocksQC := fmdrop newHeight (pendingBlocksQC n)\<rparr>,
           [TryExtendChain], [])
      | None \<Rightarrow> (n, [], []))"

section \<open>Sortition and proposing\<close>

definition handleSortitionMsg ::
  "('ps, 'pp) node \<Rightarrow> SortitionMsg \<Rightarrow> ('ps, 'pp) effect" where
  "handleSortitionMsg n smsg =
     (let rounds = lookup_nil (sortitionResult n) (sm_Height smsg);
          results = lookup_nil rounds (sm_Round smsg)
      in (n\<lparr>sortitionResult := fmupd (sm_Height smsg)
              (fmupd (sm_Round smsg) (fmupd (sm_Sortitioner smsg) False results) rounds)
              (sortitionResult n)\<rparr>, [], []))"

fun max_round_loop :: "int \<Rightarrow> u64 \<Rightarrow> (u64 \<times> (string, bool) fmap) list \<Rightarrow> u64" where
  "max_round_loop quorum maxRound [] = maxRound"
| "max_round_loop quorum maxRound ((r, results) # rest) =
     max_round_loop quorum
       (if quorum \<le> int (map_len results) then (if maxRound < r then r else maxRound)
        else maxRound) rest"

text \<open>The round to draw lots for, and the sortition results after the lookup.\<close>

definition next_round ::
  "('ps, 'pp) node \<Rightarrow> (u64 \<times> (string, bool) fmap) list \<Rightarrow> u64 \<Rightarrow> u64 \<times> ('ps, 'pp) node" where
  "next_round n rounds nextHeight =
     (case fmlookup (sortitionResult n) nextHeight of
        None \<Rightarrow> (0, n\<lparr>sortitionResult :=
                   fmupd nextHeight (fmupd 0 fmempty fmempty) (sortitionResult n)\<rparr>)
      | Some s \<Rightarrow> (max_round_loop (quorumNum n) 0 rounds + 1, n))"

definition seedForSortition :: "u64 \<Rightarrow> u64 \<Rightarrow> u64" where
  "seedForSortition nextHeight nextRound = push_bit 20 nextHeight + nextRound"

text \<open>
  \<open>ProposeBlockLoop\<close> runs beside the handlers and holds the node's lock nowhere, so it is
  modelled by the phases between which other goroutines can run: at the top of the loop,
  waiting for the timer, waiting for a height, about to select a block, drawing lots above
  the selected block, packaging a block above it, and writing a message to the peers, which
  ends when \<open>broadcast\<close> returns, if it does. \<open>pl_timers\<close> counts the timer goroutines
  that are still to send on the current \<open>timeOut\<close> channel, \<open>pl_timeOut\<close> what the channel,
  which has room for one element, holds.
\<close>

datatype phase =
    AtTop
  | AwaitTimeOut
  | AwaitHeight
  | Selecting
  | Drawing Block
  | Packaging Block
  | Writing message

record proposer =
  pl_at :: phase
  pl_timers :: nat
  pl_timeOut :: nat

definition new_timeOut :: "phase \<Rightarrow> proposer" where
  "new_timeOut ph = \<lparr>pl_at = ph, pl_timers = 0, pl_timeOut = 0\<rparr>"

text \<open>The top of the loop starts a timer and waits for it if fewer than 1000 requests wait.\<close>

definition propose_begin :: "('ps, 'pp) node \<Rightarrow> proposer \<Rightarrow> proposer" where
  "propose_begin n l =
     l\<lparr>pl_timers := Suc (pl_timers l),
       pl_at := (if length (requestPool n) < 1000 then AwaitTimeOut else AwaitHeight)\<rparr>"

definition timer_sends :: "proposer \<Rightarrow> proposer" where
  "timer_sends l = l\<lparr>pl_timers := pl_timers l - 1, pl_timeOut := Suc (pl_timeOut l)\<rparr>"

definition propose_timeOut :: "proposer \<Rightarrow> proposer" where
  "propose_timeOut l = l\<lparr>pl_at := AwaitHeight, pl_timeOut := pl_timeOut l - 1\<rparr>"

text \<open>\<open>ranNum\<close> and \<open>order\<close> are the random choice and the order inside \<open>selectBlock\<close>.\<close>

definition propose_select ::
  "nat \<Rightarrow> (string \<times> Block) list \<Rightarrow> ('ps, 'pp) node \<Rightarrow> Block outcome" where
  "propose_select ranNum order n =
     (case selectBlock (block_store n) (candidateChain n) ranNum order of
        Inl err \<Rightarrow> Panic (PanicError err)
      | Inr previousBlock \<Rightarrow> Ret previousBlock)"

text \<open>The lot, with \<open>rounds\<close> the order of the \<open>range\<close> over the sortition results: a loser
  broadcasts its loss.\<close>

definition propose_draw ::
  "('ps, 'pp) crypto \<Rightarrow> (u64 \<times> (string, bool) fmap) list \<Rightarrow> ('ps, 'pp) node \<Rightarrow> Block \<Rightarrow>
   (phase \<times> ('ps, 'pp) node \<times> message list) outcome" where
  "propose_draw c rounds n previousBlock =
     (let nextHeight = Height previousBlock + 1;
          (nextRound, n1) = next_round n rounds nextHeight;
          win = fst (Once c (sortitioner n1) (seedForSortition nextHeight nextRound))
      in if win then Ret (Packaging previousBlock, n1, [])
         else
          (let msg = MsgSortition (NewSortitionMsg (node_name n1) nextHeight nextRound) in
           bind_outcome (broadcast_out c n1 msg) (\<lambda>out. Ret (Writing msg, n1, out))))"

text \<open>The winner's proposal.\<close>

definition propose_package ::
  "('ps, 'pp) crypto \<Rightarrow> ('ps, 'pp) node \<Rightarrow> Block \<Rightarrow>
   (phase \<times> ('ps, 'pp) node \<times> message list) outcome" where
  "propose_package c n previousBlock =
     (let nextHeight = Height previousBlock + 1;
          (reqs, rest) = drain_pool (requestPool n);
          n1 = n\<lparr>requestPool := rest\<rparr> in
      case getHash c previousBlock of
        Inl err \<Rightarrow> Panic (PanicError err)
      | Inr previousHash \<Rightarrow>
          (let msg = MsgBlock (NewBlock (node_name n1) nextHeight (Some previousHash) (Some reqs)) in
           bind_outcome (broadcast_out c n1 msg) (\<lambda>out. Ret (Writing msg, n1, out))))"

text \<open>When the broadcast has returned, whatever it returned: after a proposal there is a new
  \<open>timeOut\<close> channel; after a loss the height is put back by a goroutine.\<close>

fun propose_written :: "message \<Rightarrow> proposer \<Rightarrow> proposer \<times> task list" where
  "propose_written (MsgSortition m) l = (l\<lparr>pl_at := AtTop\<rparr>, [SendHeight 0])"
| "propose_written m l = (new_timeOut AtTop, [])"

section \<open>Messages\<close>

definition verifySigED25519 ::
  "('ps, 'pp) crypto \<Rightarrow> ('ps, 'pp) node \<Rightarrow> string \<Rightarrow> goval \<Rightarrow> bytes \<Rightarrow> bool outcome" where
  "verifySigED25519 c n peer data sig =
     (case fmlookup (publicKeyMap n) peer of
        None \<Rightarrow> Ret False
      | Some pubKey \<Rightarrow> (case encode data of
          Inl err \<Rightarrow> Ret False
        | Inr dataAsBytes \<Rightarrow> VerifySignEd25519 c pubKey dataAsBytes sig))"

text \<open>The name a message is checked against, and the goroutine that handles it.\<close>

fun claimed_sender :: "message \<Rightarrow> string" where
  "claimed_sender (MsgBlock b) = Proposer b"
| "claimed_sender (MsgVote v) = Sender v"
| "claimed_sender (MsgSortition m) = sm_Sortitioner m"

fun handler_task :: "message \<Rightarrow> task" where
  "handler_task (MsgBlock b) = HandleNewBlockMsg b"
| "handler_task (MsgVote v) = HandleVoteMsg v"
| "handler_task (MsgSortition m) = HandleSortitionMsg m"

text \<open>One turn of \<open>HandleMsgsLoop\<close>.\<close>

definition HandleMsgsLoop_turn ::
  "('ps, 'pp) crypto \<Rightarrow> ('ps, 'pp) node \<Rightarrow> message \<Rightarrow> bytes \<Rightarrow> task list outcome" where
  "HandleMsgsLoop_turn c n m sig =
     bind_outcome (verifySigED25519 c n (claimed_sender m) (goval_of_message m) sig)
       (\<lambda>ok. Ret (if ok then [handler_task m] else []))"

end
