(* ===== verification/Quorum.thy ===== *)
theory Quorum
  imports Node
begin

text \<open>
  The size of a quorum. \<open>NewNode\<close> computes it in floating point; \<open>config_gen/main.go\<close>
  computes the threshold of the signature scheme with integers. Both are two thirds of the
  cluster, rounded up; two quorums meet in a member that is not faulty, and the members
  that are not faulty are enough for a quorum.
\<close>

text \<open>\<open>numT\<close> of \<open>config_gen/main.go\<close>.\<close>

definition numT :: "int \<Rightarrow> int" where
  "numT nodeNumber = nodeNumber - nodeNumber div 3"

section \<open>The floating-point computation is exact enough\<close>

lemma to_float64_int:
  assumes "0 \<le> m" and "m < 2 ^ 53"
  shows "to_float64 (of_int m) = Fin (of_int m)"
proof -
  have r: "round_float 53 (of_int m) = of_int m" using assms by (intro round_float_int) simp_all
  have "(of_int m :: rat) < of_int (2 ^ 53)" using assms(2) by (simp only: of_int_less_iff)
  also have "\<dots> < 2 ^ 1024" by simp
  finally have "\<not> 2 ^ 1024 \<le> (of_int m :: rat)" by (simp only: not_le)
  moreover have "\<not> (of_int m :: rat) \<le> - (2 ^ 1024)"
  proof -
    have "- (2 ^ 1024) < (0 :: rat)" by simp
    also have "(0 :: rat) \<le> of_int m" using assms(1) by simp
    finally show ?thesis by (simp only: not_le)
  qed
  ultimately show ?thesis unfolding to_float64_def r Let_def by (simp only: if_False)
qed

lemma ceiling_rounded_thirds:
  assumes m: "0 < m" "m < 2 ^ 50" and nd: "m mod 3 \<noteq> 0"
  shows "\<lceil>round_float 53 (of_int m / 3)\<rceil> = m div 3 + 1"
    and "round_float 53 (of_int m / 3) < 2 ^ 51" and "0 \<le> round_float 53 (of_int m / 3)"
proof -
  let ?x = "of_int m / 3 :: rat" and ?k = "m div 3"
  have split: "(of_int m :: rat) = 3 * of_int ?k + of_int (m mod 3)"
    by (metis mult_div_mod_eq of_int_add of_int_mult of_int_numeral)
  have r: "m mod 3 = 1 \<or> m mod 3 = 2" using nd by presburger
  have lo: "of_int ?k + 1/3 \<le> ?x" and hi: "?x \<le> of_int ?k + 2/3"
    using split r by auto
  have pos: "0 < ?x" using m(1) by simp
  have "(of_int m :: rat) < of_int (2 ^ 50)" using m(2) by (simp only: of_int_less_iff)
  then have x50: "?x < 2 ^ 50" by simp
  have "?x < 2 powi 50" using x50 by simp
  then have "ilog2 ?x < 50" by (rule ilog2_less [OF pos])
  then have "(2 :: rat) powi (ilog2 ?x - (int 53 - 1)) \<le> 2 powi (- 3)"
    by (intro power_int_increasing) simp_all
  also have "(2 :: rat) powi (- 3) = 1/8" by (simp add: power_int_minus)
  finally have err: "\<bar>round_float 53 ?x - ?x\<bar> \<le> 1/16"
    using round_float_error [OF pos, of 53] by simp
  then have b: "?x - 1/16 \<le> round_float 53 ?x" "round_float 53 ?x \<le> ?x + 1/16"
    by linarith+
  with lo hi have "of_int ?k < round_float 53 ?x" "round_float 53 ?x \<le> of_int (?k + 1)"
    by simp_all
  then show "\<lceil>round_float 53 ?x\<rceil> = ?k + 1" by (intro ceiling_unique) simp_all
  show "round_float 53 ?x < 2 ^ 51" using b(2) x50 by simp
  have "(0 :: rat) \<le> of_int ?k" using m(1) by simp
  with b(1) lo show "0 \<le> round_float 53 ?x" by linarith
qed

lemma int_ceil_thirds:
  assumes m: "0 \<le> m" "m < 2 ^ 50"
  shows "int_ceil (float64_div (float64_of_int m) (Fin 3)) = (m + 2) div 3"
proof -
  have of: "float64_of_int m = Fin (of_int m)"
    unfolding float64_of_int_def by (rule to_float64_int) (use m in simp_all)
  show ?thesis
  proof (cases "m mod 3 = 0")
    case True
    then have "(of_int m :: rat) / 3 = of_int (m div 3)"
      by (metis (no_types, lifting) mult_div_mod_eq add.right_neutral nonzero_mult_div_cancel_left
          of_int_mult of_int_numeral zero_neq_numeral)
    moreover have "to_float64 (of_int (m div 3)) = Fin (of_int (m div 3))"
      by (rule to_float64_int) (use m in \<open>simp_all\<close>)
    moreover have "(m + 2) div 3 = m div 3" using True by presburger
    ultimately show ?thesis by (simp add: of)
  next
    case False
    with m(1) have pos: "0 < m" by (cases "m = 0") simp_all
    note c = ceiling_rounded_thirds [OF pos m(2) False]
    have "(2 :: rat) ^ 51 < 2 ^ 1024" by simp
    with c(2) have "\<not> 2 ^ 1024 \<le> round_float 53 (of_int m / 3)" by linarith
    moreover have "\<not> round_float 53 (of_int m / 3) \<le> - (2 ^ 1024)"
    proof -
      have "- (2 ^ 1024) < (0 :: rat)" by simp
      with c(3) show ?thesis by linarith
    qed
    ultimately have "to_float64 (of_int m / 3) = Fin (round_float 53 (of_int m / 3))"
      unfolding to_float64_def Let_def by (simp only: if_False)
    moreover have "(m + 2) div 3 = m div 3 + 1" using False by presburger
    ultimately show ?thesis using c(1) by (simp add: of)
  qed
qed

lemma quorum_of_thirds:
  assumes "n < 2 ^ 49"
  shows "quorum_of n = int n - int n div 3"
proof -
  have "int n < int (2 ^ 49)" using assms by (simp only: of_nat_less_iff)
  then have "quorum_of n = (2 * int n + 2) div 3"
    unfolding quorum_of_def by (intro int_ceil_thirds) simp_all
  also have "\<dots> = int n - int n div 3" by presburger
  finally show ?thesis .
qed

lemma quorum_of_code [code]:
  "quorum_of n = (if int n < 2 ^ 49 then int n - int n div 3
     else int_ceil (float64_div (float64_of_int (2 * int n)) (Fin 3)))"
proof (cases "int n < 2 ^ 49")
  case True
  then have "n < 2 ^ 49" by (metis of_nat_less_iff of_nat_numeral of_nat_power)
  with True show ?thesis by (simp only: quorum_of_thirds if_True)
next
  case False
  then show ?thesis by (simp only: quorum_of_def if_False)
qed

section \<open>Quorums intersect\<close>

text \<open>
  What the protocol relies on: a rule that gives the size of a quorum of a cluster and the
  number of faulty members the cluster tolerates.
\<close>

locale quorum_rule =
  fixes quorum :: "nat \<Rightarrow> nat" and tolerated :: "nat \<Rightarrow> nat" and bound :: nat
  assumes intersecting: "0 < n \<Longrightarrow> n < bound \<Longrightarrow> n + tolerated n < 2 * quorum n"
    and available: "n < bound \<Longrightarrow> quorum n + tolerated n \<le> n"
begin

lemma common_correct_member:
  assumes M: "finite M" "M \<noteq> {}" "card M < bound"
    and Q: "Q \<subseteq> M" "quorum (card M) \<le> card Q" and Q': "Q' \<subseteq> M" "quorum (card M) \<le> card Q'"
    and F: "card F \<le> tolerated (card M)" "finite F"
  shows "\<exists>x. x \<in> Q \<and> x \<in> Q' \<and> x \<notin> F"
proof -
  have fin: "finite Q" "finite Q'" using M Q Q' finite_subset by blast+
  have "card Q + card Q' = card (Q \<union> Q') + card (Q \<inter> Q')" by (rule card_Un_Int [OF fin])
  moreover have "card (Q \<union> Q') \<le> card M" using M(1) Q(1) Q'(1) by (intro card_mono) auto
  moreover have "card M + tolerated (card M) < 2 * quorum (card M)"
    using intersecting M by (simp add: card_gt_0_iff)
  ultimately have "card F < card (Q \<inter> Q')" using Q(2) Q'(2) F(1) by linarith
  then have "\<not> Q \<inter> Q' \<subseteq> F" using card_mono [OF F(2)] by (metis not_le)
  then show ?thesis by blast
qed

lemma correct_members_suffice:
  assumes "finite M" "card M < bound" "F \<subseteq> M" "card F \<le> tolerated (card M)"
  shows "quorum (card M) \<le> card (M - F)"
  using available [of "card M"] assms by (simp add: card_Diff_subset finite_subset)

end

lemma nat_quorum_of: "n < 2 ^ 49 \<Longrightarrow> nat (quorum_of n) = n - n div 3"
  by (simp add: quorum_of_thirds nat_diff_distrib nat_div_distrib)

lemma thirds_arith:
  "0 < n \<Longrightarrow> n + (n - 1) div 3 < 2 * (n - n div 3)"
  "n - n div 3 + (n - 1) div 3 \<le> (n :: nat)"
proof -
  have "3 * (n div 3) \<le> n" "n < 3 * (n div 3) + 3" "3 * ((n - 1) div 3) \<le> n - 1" by simp_all
  then show "0 < n \<Longrightarrow> n + (n - 1) div 3 < 2 * (n - n div 3)"
    and "n - n div 3 + (n - 1) div 3 \<le> n" by linarith+
qed

interpretation thirds: quorum_rule "\<lambda>n. nat (quorum_of n)" "\<lambda>n. (n - 1) div 3" "2 ^ 49"
  by unfold_locales (simp_all only: nat_quorum_of thirds_arith)

end
