(* ===== verification/Config_Gen.thy ===== *)
theory Config_Gen
  imports Config_Load Quorum "HOL-Library.List_Lexorder" "HOL-Library.Char_ord"
begin

text \<open>
  \<open>config_gen/main.go\<close>: a template with the addresses and ports of the nodes becomes one
  configuration file per node, with its keys. \<open>main\<close> takes what viper reads with the set-up
  it makes, the orders of its \<open>range\<close> loops, the libraries' key generation, and returns
  the files with the settings written to them, in the order of the writing. The error of
  \<open>WriteConfig\<close> is dropped, as in the code.
\<close>

type_synonym settings = "(string \<times> setting) list"

text \<open>The addresses by name, and the names in the order of the map.\<close>

fun read_cluster ::
  "(string \<times> setting) list \<Rightarrow> (string, string) fmap \<times> string list \<Rightarrow>
   ((string, string) fmap \<times> string list) outcome" where
  "read_cluster [] acc = Ret acc"
| "read_cluster ((name, addr) # rest) (clusterMapString, clusterName) =
     (case addr of
        VString addrAsString \<Rightarrow>
          read_cluster rest (fmupd name addrAsString clusterMapString, clusterName @ [name])
      | _ \<Rightarrow> Panic (PanicMessage ''cluster in the config file cannot be decoded correctly''))"

fun read_ports ::
  "(string, setting) fmap \<Rightarrow> string list \<Rightarrow> (string, int) fmap \<Rightarrow> (string, int) fmap outcome" where
  "read_ports p2pPortMap [] ports = Ret ports"
| "read_ports p2pPortMap (name # rest) ports =
     (case fmlookup p2pPortMap name of
        None \<Rightarrow> Panic (PanicMessage ''p2p_listen_port does not match with cluster'')
      | Some (VInt portAsInt) \<Rightarrow> read_ports p2pPortMap rest (fmupd name portAsInt ports)
      | Some _ \<Rightarrow> Panic (PanicMessage ''p2p_listen_port contains a non-int value''))"

fun gen_keys ::
  "(string \<Rightarrow> error + bytes \<times> bytes) \<Rightarrow> string list \<Rightarrow> (string, string) fmap \<times> (string, string) fmap \<Rightarrow>
   ((string, string) fmap \<times> (string, string) fmap) outcome" where
  "gen_keys gen [] keys = Ret keys"
| "gen_keys gen (name # rest) (privKeys, pubKeys) =
     bind_outcome (GenED25519Keys (gen name)) (\<lambda>(privKeyED, pubKeyED).
       gen_keys gen rest (fmupd name (hex_EncodeToString privKeyED) privKeys,
                          fmupd name (hex_EncodeToString pubKeyED) pubKeys))"

text \<open>A lookup of a name a Go map lacks yields the zero value.\<close>

definition lookup_str :: "(string, string) fmap \<Rightarrow> string \<Rightarrow> string" where
  "lookup_str m name = (case fmlookup m name of None \<Rightarrow> [] | Some s \<Rightarrow> s)"

definition node_settings ::
  "viper \<Rightarrow> (string, string) fmap \<Rightarrow> (string, int) fmap \<Rightarrow> (string, string) fmap \<Rightarrow> (string, string) fmap \<Rightarrow>
   bytes \<Rightarrow> bytes \<Rightarrow> string \<Rightarrow> settings" where
  "node_settings v clusterMapString ports privKeys pubKeys shareAsBytes tsPubKeyAsBytes name =
     [(''name'', VString name),
      (''address'', VString (lookup_str clusterMapString name)),
      (''expectation'', VInt (v_GetInt v ''expectation'')),
      (''p2p_listen_port'', VInt (case fmlookup ports name of None \<Rightarrow> 0 | Some p \<Rightarrow> p)),
      (''peers_p2p_port'', VMap (v_GetStringMap v ''peers_p2p_port'')),
      (''max_pool'', VInt (v_GetInt v ''max_pool'')),
      (''rpc_listen_port'', VInt (v_GetInt v ''rpc_listen_port'')),
      (''PrivKeyED'', VString (lookup_str privKeys name)),
      (''cluster_pubkeyed'', VStringMap pubKeys),
      (''TSShare'', VString (hex_EncodeToString shareAsBytes)),
      (''TSPubKey'', VString (hex_EncodeToString tsPubKeyAsBytes)),
      (''sortition_enabled'', VBool (v_GetBool v ''sortition_enabled'')),
      (''log_level'', VInt (v_GetInt v ''log_level'')),
      (''can_propose_block'', VBool (v_GetBool v ''can_propose_block'')),
      (''cluster_ips'', VMap (v_GetStringMap v ''ips''))]"

fun write_files ::
  "('s, 'pt, 'pp) kyber \<Rightarrow> (bytes \<Rightarrow> bytes \<Rightarrow> string \<Rightarrow> settings) \<Rightarrow> 's PriShare list \<Rightarrow> 'pp \<Rightarrow> nat \<Rightarrow>
   string list \<Rightarrow> (string \<times> settings) list outcome" where
  "write_files k st shares pubPoly i [] = Ret []"
| "write_files k st shares pubPoly i (name # names) =
     (if length shares \<le> i then Panic IndexOutOfRange
      else
       (case EncodeTSPartialKey k (shares ! i) of
          Inl err \<Rightarrow> Panic (PanicMessage ''encode the share'')
        | Inr shareAsBytes \<Rightarrow>
            (case EncodeTSPublicKey k pubPoly of
               Inl err \<Rightarrow> Panic (PanicMessage ''encode the share'')
             | Inr tsPubKeyAsBytes \<Rightarrow>
                 bind_outcome (write_files k st shares pubPoly (Suc i) names)
                   (\<lambda>fs. Ret ((name @ ''.yaml'', st shareAsBytes tsPubKeyAsBytes name) # fs)))))"

definition config_gen ::
  "('s, 'pt, 'pp) kyber \<Rightarrow> ('poly, 's, 'pp) dealer \<Rightarrow> 's \<Rightarrow> (string \<Rightarrow> error + bytes \<times> bytes) \<Rightarrow>
   (viper_setup \<Rightarrow> viper) \<Rightarrow> (string \<times> setting) list \<Rightarrow> string list \<Rightarrow> string list \<Rightarrow>
   (string \<times> settings) list outcome" where
  "config_gen k d secret gen read order port_order key_order =
     (let v = read (config_setup '''' ''config_template'') in
      case v_ReadInConfig v of Some err \<Rightarrow> Panic (PanicError err) | None \<Rightarrow>
     (let clusterMapInterface = v_GetStringMap v ''ips'';
          nodeNumber = int (map_len clusterMapInterface);
          p2pPortMapInterface = v_GetStringMap v ''peers_p2p_port'' in
      bind_outcome (read_cluster order (fmempty, [])) (\<lambda>(clusterMapString, names).
      let clusterName = sort names in
      if nodeNumber \<noteq> int (map_len p2pPortMapInterface)
      then Panic (PanicMessage ''p2p_listen_port does not match with cluster'')
      else
       bind_outcome (read_ports p2pPortMapInterface port_order fmempty) (\<lambda>mapNameToP2PPort.
       bind_outcome (gen_keys gen key_order (fmempty, fmempty)) (\<lambda>(privKeysED25519, pubKeysED25519).
       let (shares, pubPoly) = GenTSKeys d secret (numT nodeNumber) nodeNumber in
       write_files k
         (node_settings v clusterMapString mapNameToP2PPort privKeysED25519 pubKeysED25519)
         shares pubPoly 0 clusterName)))))"

end
