(* ===== verification/Node_Steps.thy ===== *)
theory Node_Steps
  imports Node
begin

text \<open>
  A node as a running process: its state, where its proposing loop is, the goroutines that
  have been started and have not run yet, and whether it has panicked. A step receives a
  message, runs one goroutine, moves the proposing loop by one phase (if the node runs it),
  or accepts a client's request; which one is not determined, so \<open>proc_step\<close> covers every
  schedule of the goroutines. A
  goroutine that needs the lock runs only while the lock has not been left held, and one
  that sends on \<open>candidateHeightUpdated\<close> only while the channel has room.
\<close>

record ('ps, 'pp) proc =
  p_node :: "('ps, 'pp) node"
  p_loop :: proposer
  p_tasks :: "task multiset"
  p_crashed :: bool

fun run_task ::
  "('ps, 'pp) crypto \<Rightarrow> (string \<times> gobytes) list \<Rightarrow> ('ps, 'pp) node \<Rightarrow> task \<Rightarrow>
   ('ps, 'pp) effect outcome" where
  "run_task c order n (HandleNewBlockMsg b) = Ret (handleNewBlockMsg n b)"
| "run_task c order n (HandleNewBlock b) = Ret (handleNewBlock c n b)"
| "run_task c order n (BroadcastVote b) = broadcastVote c n b"
| "run_task c order n (CastVote b v) = castVote c n b v"
| "run_task c order n (TryUpdateCandidateChain b) = Ret (tryUpdateCandidateChain c n b)"
| "run_task c order n TryExtendCandidateChain = Ret (tryExtendCandidateChain n)"
| "run_task c order n (SendHeight h) =
     Ret (n\<lparr>candidateHeightUpdated := candidateHeightUpdated n @ [h]\<rparr>, [], [])"
| "run_task c order n (HandleVoteMsg v) = Ret (handleVoteMsg n v)"
| "run_task c order n (CheckIfQuorumVotes h s) = Ret (checkIfQuorumVotes n h s)"
| "run_task c order n (BuildBlockWithQC h s) = buildBlockWithQC c order n h s"
| "run_task c order n (HandleNewBlockQC bqc) = Ret (handleNewBlockQC n bqc)"
| "run_task c order n (CommitAncestor bqc) =
     bind_outcome (CommitAncestorByBlockQC n bqc) (\<lambda>n'. Ret (n', [TryExtendChain], []))"
| "run_task c order n TryExtendChain = Ret (tryExtendChain n)"
| "run_task c order n (HandleSortitionMsg m) = Ret (handleSortitionMsg n m)"

fun enabled :: "('ps, 'pp) node \<Rightarrow> task \<Rightarrow> bool" where
  "enabled n (HandleNewBlockMsg b) = True"
| "enabled n (HandleSortitionMsg m) = True"
| "enabled n (SendHeight h) = (candidateHeightUpdated n = [])"
| "enabled n t = (\<not> lock_kept n)"

text \<open>The orders in which \<open>extractPartialSigs\<close> can visit the signatures.\<close>

fun order_ok :: "('ps, 'pp) node \<Rightarrow> task \<Rightarrow> (string \<times> gobytes) list \<Rightarrow> bool" where
  "order_ok n (BuildBlockWithQC h s) order = map_order (votes_for n h s) order"
| "order_ok n t order = True"

section \<open>The proposing loop\<close>

text \<open>The choices \<open>selectBlock\<close> can make, and the orders of the \<open>range\<close> over the results of a
  height.\<close>

definition select_ok :: "('ps, 'pp) node \<Rightarrow> nat \<Rightarrow> (string \<times> Block) list \<Rightarrow> bool" where
  "select_ok n ranNum order \<longleftrightarrow>
     (case cc_lookup (block_store n) (candidateChain n) (cc_height (candidateChain n)) of
        None \<Rightarrow> True
      | Some m \<Rightarrow> map_order m order \<and> ranNum < map_len m)"

definition rounds_ok ::
  "('ps, 'pp) node \<Rightarrow> Block \<Rightarrow> (u64 \<times> (string, bool) fmap) list \<Rightarrow> bool" where
  "rounds_ok n prev rounds \<longleftrightarrow>
     (case fmlookup (sortitionResult n) (Height prev + 1) of None \<Rightarrow> True | Some s \<Rightarrow> map_order s rounds)"

text \<open>One phase of the loop, or a timer going off: the node and the loop afterwards, the
  goroutines started and the messages broadcast.\<close>

inductive loop_step ::
  "('ps, 'pp) crypto \<Rightarrow> ('ps, 'pp) node \<Rightarrow> proposer \<Rightarrow> ('ps, 'pp) node \<Rightarrow> proposer \<Rightarrow> task list \<Rightarrow>
   message list \<Rightarrow> bool"
  for c :: "('ps, 'pp) crypto" and n :: "('ps, 'pp) node" and l :: proposer where
  loop_begin:
  "pl_at l = AtTop \<Longrightarrow> loop_step c n l n (propose_begin n l) [] []"
| loop_timer:
  "0 < pl_timers l \<Longrightarrow> pl_timeOut l = 0 \<Longrightarrow> loop_step c n l n (timer_sends l) [] []"
| loop_timeOut:
  "pl_at l = AwaitTimeOut \<Longrightarrow> 0 < pl_timeOut l \<Longrightarrow> loop_step c n l n (propose_timeOut l) [] []"
| loop_receive:
  "pl_at l = AwaitHeight \<Longrightarrow> candidateHeightUpdated n = h # hs \<Longrightarrow>
   loop_step c n l (n\<lparr>candidateHeightUpdated := hs\<rparr>) (l\<lparr>pl_at := Selecting\<rparr>) [] []"
| loop_select:
  "pl_at l = Selecting \<Longrightarrow> select_ok n ranNum order \<Longrightarrow> propose_select ranNum order n = Ret prev \<Longrightarrow>
   loop_step c n l n (l\<lparr>pl_at := Drawing prev\<rparr>) [] []"
| loop_draw:
  "pl_at l = Drawing prev \<Longrightarrow> rounds_ok n prev rounds \<Longrightarrow>
   propose_draw c rounds n prev = Ret (ph, n', out) \<Longrightarrow>
   loop_step c n l n' (l\<lparr>pl_at := ph\<rparr>) [] out"
| loop_package:
  "pl_at l = Packaging prev \<Longrightarrow> propose_package c n prev = Ret (ph, n', out) \<Longrightarrow>
   loop_step c n l n' (l\<lparr>pl_at := ph\<rparr>) [] out"
| loop_written:
  "pl_at l = Writing msg \<Longrightarrow> propose_written msg l = (l', ts) \<Longrightarrow> loop_step c n l n l' ts []"

inductive_cases loop_stepE: "loop_step c n l n' l' ts out"

text \<open>Where the loop panics.\<close>

inductive loop_panics :: "('ps, 'pp) crypto \<Rightarrow> ('ps, 'pp) node \<Rightarrow> proposer \<Rightarrow> bool"
  for c :: "('ps, 'pp) crypto" and n :: "('ps, 'pp) node" and l :: proposer where
  select_panics:
  "pl_at l = Selecting \<Longrightarrow> select_ok n ranNum order \<Longrightarrow> propose_select ranNum order n = Panic e \<Longrightarrow>
   loop_panics c n l"
| draw_panics:
  "pl_at l = Drawing prev \<Longrightarrow> rounds_ok n prev rounds \<Longrightarrow> propose_draw c rounds n prev = Panic e \<Longrightarrow>
   loop_panics c n l"
| package_panics:
  "pl_at l = Packaging prev \<Longrightarrow> propose_package c n prev = Panic e \<Longrightarrow> loop_panics c n l"

section \<open>The steps of a process\<close>

datatype event = Receive message bytes | Run task | Propose | Accept RequestWrappedByServer

inductive proc_step ::
  "('ps, 'pp) crypto \<Rightarrow> ('ps, 'pp) proc \<Rightarrow> event \<Rightarrow> message list \<Rightarrow> ('ps, 'pp) proc \<Rightarrow> bool"
  for c :: "('ps, 'pp) crypto" where
  receive:
  "\<not> p_crashed p \<Longrightarrow> HandleMsgsLoop_turn c (p_node p) m sig = Ret ts \<Longrightarrow>
   proc_step c p (Receive m sig) [] (p\<lparr>p_tasks := p_tasks p + mset ts\<rparr>)"
| receive_panic:
  "\<not> p_crashed p \<Longrightarrow> HandleMsgsLoop_turn c (p_node p) m sig = Panic e \<Longrightarrow>
   proc_step c p (Receive m sig) [] (p\<lparr>p_crashed := True\<rparr>)"
| run:
  "\<not> p_crashed p \<Longrightarrow> p_tasks p = add_mset t rest \<Longrightarrow> enabled (p_node p) t \<Longrightarrow>
   order_ok (p_node p) t order \<Longrightarrow> run_task c order (p_node p) t = Ret (n', ts, out) \<Longrightarrow>
   proc_step c p (Run t) out (p\<lparr>p_node := n', p_tasks := rest + mset ts\<rparr>)"
| run_panic:
  "\<not> p_crashed p \<Longrightarrow> p_tasks p = add_mset t rest \<Longrightarrow> enabled (p_node p) t \<Longrightarrow>
   order_ok (p_node p) t order \<Longrightarrow> run_task c order (p_node p) t = Panic e \<Longrightarrow>
   proc_step c p (Run t) [] (p\<lparr>p_crashed := True\<rparr>)"
| propose:
  "\<not> p_crashed p \<Longrightarrow> node_canProposeBlock (p_node p) \<Longrightarrow>
   loop_step c (p_node p) (p_loop p) n' l' ts out \<Longrightarrow>
   proc_step c p Propose out (p\<lparr>p_node := n', p_loop := l', p_tasks := p_tasks p + mset ts\<rparr>)"
| propose_panic:
  "\<not> p_crashed p \<Longrightarrow> node_canProposeBlock (p_node p) \<Longrightarrow> loop_panics c (p_node p) (p_loop p) \<Longrightarrow>
   proc_step c p Propose [] (p\<lparr>p_crashed := True\<rparr>)"
| accept:
  "\<not> p_crashed p \<Longrightarrow>
   proc_step c p (Accept r) []
     (p\<lparr>p_node := (p_node p)\<lparr>requestPool := requestPool (p_node p) @ [r]\<rparr>\<rparr>)"

inductive_cases proc_stepE: "proc_step c p ev out q"
inductive_cases runE: "proc_step c p (Run t) out q"

definition proc_init :: "('ps, 'pp) crypto \<Rightarrow> ('ps, 'pp) Config \<Rightarrow> ('ps, 'pp) proc \<Rightarrow> bool" where
  "proc_init c conf p \<longleftrightarrow>
     NewNode c conf = Ret (p_node p) \<and> p_loop p = new_timeOut AtTop \<and> p_tasks p = {#} \<and> \<not> p_crashed p"

definition proc_next :: "('ps, 'pp) crypto \<Rightarrow> ('ps, 'pp) proc \<Rightarrow> ('ps, 'pp) proc \<Rightarrow> bool" where
  "proc_next c p q \<longleftrightarrow> (\<exists>ev out. proc_step c p ev out q)"

section \<open>Inversion of a goroutine's run\<close>

lemma validate_simps [simp]: "validateBlockMsg n b" "validateVoteMsg n v"
  by (simp_all add: validateBlockMsg_def validateVoteMsg_def)

lemma plain_vote_eq: "plain_vote c b =
    \<lparr>BlockHash = Some (block_hash c b), BlockHeight = Height b, Opinion = True\<rparr>"
  by (simp add: plain_vote_def)

text \<open>The bytes signed for a vote.\<close>

definition vote_bytes :: "('ps, 'pp) crypto \<Rightarrow> Block \<Rightarrow> bytes" where
  "vote_bytes c b = json_bytes (goval_of_PlainVote (plain_vote c b))"

lemma broadcastVote_Ret:
  assumes "broadcastVote c n b = Ret (n', ts, out)"
  obtains "lookup_bool (voted n) (Height b)" "n' = n" "ts = []" "out = []"
  | sig where "\<not> lookup_bool (voted n) (Height b)" "n' = n" "out = []"
      "tbls_Sign c (tsPrivateKey n) (vote_bytes c b) = Inr sig"
      "ts = [CastVote b \<lparr>v_PlainVote = plain_vote c b, Sender = node_name n,
                         PartialSig = Some sig\<rparr>]"
proof (cases "tbls_Sign c (tsPrivateKey n) (vote_bytes c b)")
  case (Inl e)
  with assms that show ?thesis
    by (auto simp: broadcastVote_def signPlainVote_def SignTSPartial_def vote_bytes_def
        split: if_splits)
next
  case (Inr sig)
  with assms that show ?thesis
    by (auto simp: broadcastVote_def signPlainVote_def SignTSPartial_def vote_bytes_def
        split: if_splits)
qed

lemma buildBlockWithQC_Ret:
  assumes "buildBlockWithQC c order n h s = Ret (n', ts, out)"
  obtains b sig where "pending_block n h s = Some b" "n' = n" "out = []"
    "tbls_Recover c (tsPublicKey n) (vote_bytes c b)
       (extractPartialSigs (quorumNum n) order) (quorumNum n) (nodeNum n) = Inr sig"
    "ts = [HandleNewBlockQC \<lparr>bq_Block = b, QC = Some sig\<rparr>]"
proof (cases "pending_block n h s")
  case None
  with assms show ?thesis by (simp add: buildBlockWithQC_def)
next
  case (Some b)
  show ?thesis
  proof (cases "tbls_Recover c (tsPublicKey n) (vote_bytes c b)
       (extractPartialSigs (quorumNum n) order) (quorumNum n) (nodeNum n)")
    case (Inl e)
    with assms Some show ?thesis
      by (simp add: buildBlockWithQC_def createIntactSig_def AssembleIntactTSPartial_def
          vote_bytes_def)
  next
    case (Inr sig)
    with assms Some that show ?thesis
      by (simp add: buildBlockWithQC_def createIntactSig_def AssembleIntactTSPartial_def
          vote_bytes_def)
  qed
qed

lemma CommitAncestor_Ret:
  assumes "CommitAncestorByBlockQC n bqc = Ret n'"
  obtains "n' = n"
  | b m blocks where
    "cc_lookup (block_store n) (candidateChain n) (Height (bq_Block bqc) - 1) = Some m"
    "fmlookup m (hex_EncodeToString (contents (PreviousHash (bq_Block bqc)))) = Some b"
    "commit_loop (cc_block (block_store n) (candidateChain n)) (QC bqc) (chain_height (chain n))
       (Height (bq_Block bqc) - 1) (Some b) (chain_blocks (chain n)) = Ret blocks"
    "n' = n\<lparr>chain := \<lparr>chain_blocks = blocks, chain_height = Height (bq_Block bqc) - 1\<rparr>\<rparr>"
proof (cases "map_len (chain_blocks (chain n)) = map_len (cc_blocks (candidateChain n))")
  case True
  then have "n' = n" using assms by (simp add: CommitAncestorByBlockQC_def)
  then show ?thesis by (rule that(1))
next
  case False
  note def = assms [unfolded CommitAncestorByBlockQC_def Let_def if_not_P [OF False]]
  show ?thesis
  proof (cases "cc_lookup (block_store n) (candidateChain n) (Height (bq_Block bqc) - 1)")
    case None
    then have "n' = n" using def by simp
    then show ?thesis by (rule that(1))
  next
    case m: (Some m)
    show ?thesis
    proof (cases "fmlookup m (hex_EncodeToString (contents (PreviousHash (bq_Block bqc))))")
      case None
      then have "n' = n" using def m by simp
      then show ?thesis by (rule that(1))
    next
      case (Some b)
      with def m have "\<exists>blocks.
          commit_loop (cc_block (block_store n) (candidateChain n)) (QC bqc)
            (chain_height (chain n)) (Height (bq_Block bqc) - 1) (Some b)
            (chain_blocks (chain n)) = Ret blocks \<and>
          n' = n\<lparr>chain := \<lparr>chain_blocks = blocks, chain_height = Height (bq_Block bqc) - 1\<rparr>\<rparr>"
        by (auto simp: bind_outcome_Ret_iff)
      then show ?thesis using that(2) [OF m Some] by blast
    qed
  qed
qed

lemma run_task_Ret:
  assumes "run_task c order n t = Ret (n', ts, out)"
  obtains
    (block_msg) b where "t = HandleNewBlockMsg b" "n' = n" "out = []"
      "ts = [HandleNewBlock b, BroadcastVote b]"
  | (new_block) b n1 r where "t = HandleNewBlock b" "out = []"
      "ensure_pending n (Height b) = (n1, r)"
      "n' = n1\<lparr>block_store := (block_store n1)(r := fmupd (block_key c b) b (block_store n1 r))\<rparr>"
      "ts = [TryUpdateCandidateChain b, CheckIfQuorumVotes (Height b) (block_key c b)]"
  | (vote_seen) b where "t = BroadcastVote b" "n' = n" "out = []" "ts = []"
      "lookup_bool (voted n) (Height b)"
  | (vote_signed) b sig where "t = BroadcastVote b" "n' = n" "out = []"
      "ts = [CastVote b \<lparr>v_PlainVote = plain_vote c b, Sender = node_name n,
                         PartialSig = Some sig\<rparr>]"
  | (cast) b v where "t = CastVote b v" "\<not> lookup_bool (voted n) (Height b)"
      "n' = n\<lparr>voted := fmupd (Height b) True (voted n)\<rparr>" "ts = []" "out = [MsgVote v]"
  | (cast_dup) b v where "t = CastVote b v" "n' = n" "ts = []" "out = []"
  | (update) b r where "t = TryUpdateCandidateChain b" "ts = []" "out = []"
      "fmlookup (cc_blocks (candidateChain n)) (Height b) = Some r"
      "n' = n\<lparr>block_store := (block_store n)(r := fmupd (block_key c b) b (block_store n r))\<rparr>"
  | (update_none) b where "t = TryUpdateCandidateChain b" "n' = n" "out = []"
      "fmlookup (cc_blocks (candidateChain n)) (Height b) = None" "ts = [TryExtendCandidateChain]"
  | (extend_cand) r where "t = TryExtendCandidateChain" "out = []"
      "fmlookup (pendingBlocks n) (cc_height (candidateChain n) + 1) = Some r"
      "n' = n\<lparr>candidateChain :=
         \<lparr>cc_blocks = fmupd (cc_height (candidateChain n) + 1) r (cc_blocks (candidateChain n)),
          cc_height = cc_height (candidateChain n) + 1\<rparr>\<rparr>"
      "ts = [SendHeight (cc_height (candidateChain n) + 1), TryExtendCandidateChain]"
  | (extend_cand_none) "t = TryExtendCandidateChain" "n' = n" "ts = []" "out = []"
      "fmlookup (pendingBlocks n) (cc_height (candidateChain n) + 1) = None"
  | (send) h where "t = SendHeight h" "ts = []" "out = []"
      "n' = n\<lparr>candidateHeightUpdated := candidateHeightUpdated n @ [h]\<rparr>"
  | (vote_msg) v where "t = HandleVoteMsg v" "out = []" "(n', ts, []) = handleVoteMsg n v"
  | (check_yes) h s where "t = CheckIfQuorumVotes h s" "out = []"
      "quorumNum n \<le> int (map_len (votes_for n h s))" "\<not> lookup_bool (qcCreated n) h"
      "pending_block n h s \<noteq> None"
      "n' = n\<lparr>qcCreated := fmupd h True (qcCreated n)\<rparr>" "ts = [BuildBlockWithQC h s]"
  | (check_no) h s where "t = CheckIfQuorumVotes h s" "n' = n" "ts = []" "out = []"
      "\<not> (quorumNum n \<le> int (map_len (votes_for n h s)) \<and> \<not> lookup_bool (qcCreated n) h \<and>
         pending_block n h s \<noteq> None)"
  | (build) h s b sig where "t = BuildBlockWithQC h s" "n' = n" "out = []"
      "pending_block n h s = Some b" "ts = [HandleNewBlockQC \<lparr>bq_Block = b, QC = Some sig\<rparr>]"
  | (qc_dup) bqc where "t = HandleNewBlockQC bqc" "n' = n\<lparr>lock_kept := True\<rparr>" "ts = []"
      "out = []" "fmlookup (pendingBlocksQC n) (Height (bq_Block bqc)) \<noteq> None"
  | (qc_new) bqc where "t = HandleNewBlockQC bqc" "out = []"
      "fmlookup (pendingBlocksQC n) (Height (bq_Block bqc)) = None"
      "n' = n\<lparr>pendingBlocksQC := fmupd (Height (bq_Block bqc)) bqc (pendingBlocksQC n)\<rparr>"
      "ts = [CommitAncestor bqc]"
  | (commit) bqc where "t = CommitAncestor bqc" "out = []" "ts = [TryExtendChain]"
      "CommitAncestorByBlockQC n bqc = Ret n'"
  | (extend) bqc where "t = TryExtendChain" "out = []" "ts = [TryExtendChain]"
      "fmlookup (pendingBlocksQC n) (chain_height (chain n) + 1) = Some bqc"
      "n' = n\<lparr>chain := \<lparr>chain_blocks = fmupd (chain_height (chain n) + 1) bqc (chain_blocks (chain n)),
                       chain_height = chain_height (chain n) + 1\<rparr>,
             pendingBlocksQC := fmdrop (chain_height (chain n) + 1) (pendingBlocksQC n)\<rparr>"
  | (extend_none) "t = TryExtendChain" "n' = n" "ts = []" "out = []"
      "fmlookup (pendingBlocksQC n) (chain_height (chain n) + 1) = None"
  | (sortition) m sr where "t = HandleSortitionMsg m" "n' = n\<lparr>sortitionResult := sr\<rparr>"
      "ts = []" "out = []"
proof (cases t)
  case (HandleNewBlock b)
  obtain n1 r where "ensure_pending n (Height b) = (n1, r)" by fastforce
  then show ?thesis
    using assms HandleNewBlock by (intro new_block) (auto simp: handleNewBlock_def Let_def)
next
  case (BroadcastVote b)
  with assms have "broadcastVote c n b = Ret (n', ts, out)" by simp
  then show ?thesis
  proof (cases rule: broadcastVote_Ret)
    case 1
    with BroadcastVote show ?thesis by (intro vote_seen)
  next
    case (2 sig)
    with BroadcastVote show ?thesis by (intro vote_signed)
  qed
next
  case (BuildBlockWithQC h s)
  with assms have "buildBlockWithQC c order n h s = Ret (n', ts, out)" by simp
  then show ?thesis by (cases rule: buildBlockWithQC_Ret) (intro build [OF BuildBlockWithQC])
next
  case (HandleNewBlockMsg b)
  then show ?thesis using assms by (intro block_msg) (auto simp: handleNewBlockMsg_def)
next
  case (CastVote b v)
  show ?thesis
  proof (cases "lookup_bool (voted n) (Height b)")
    case True
    then show ?thesis using assms CastVote by (intro cast_dup) (auto simp: castVote_eq)
  next
    case False
    then show ?thesis using assms CastVote by (intro cast) (auto simp: castVote_eq split: if_splits)
  qed
next
  case (TryUpdateCandidateChain b)
  show ?thesis
  proof (cases "fmlookup (cc_blocks (candidateChain n)) (Height b)")
    case None
    then show ?thesis using assms TryUpdateCandidateChain
      by (intro update_none) (auto simp: tryUpdateCandidateChain_def Let_def)
  next
    case (Some r)
    then show ?thesis using assms TryUpdateCandidateChain
      by (intro update) (auto simp: tryUpdateCandidateChain_def Let_def)
  qed
next
  case TryExtendCandidateChain
  show ?thesis
  proof (cases "fmlookup (pendingBlocks n) (cc_height (candidateChain n) + 1)")
    case None
    then show ?thesis using assms TryExtendCandidateChain
      by (intro extend_cand_none) (auto simp: tryExtendCandidateChain_def Let_def)
  next
    case (Some r)
    then show ?thesis using assms TryExtendCandidateChain
      by (intro extend_cand) (auto simp: tryExtendCandidateChain_def Let_def)
  qed
next
  case (SendHeight h)
  then show ?thesis using assms by (intro send) auto
next
  case (HandleVoteMsg v)
  then show ?thesis using assms by (intro vote_msg) (auto simp: handleVoteMsg_def Let_def)
next
  case (CheckIfQuorumVotes h s)
  show ?thesis
  proof (cases "quorumNum n \<le> int (map_len (votes_for n h s)) \<and> \<not> lookup_bool (qcCreated n) h \<and>
      pending_block n h s \<noteq> None")
    case True
    then show ?thesis using assms CheckIfQuorumVotes
      by (intro check_yes) (auto simp: checkIfQuorumVotes_def Let_def)
  next
    case False
    then show ?thesis using assms CheckIfQuorumVotes
      by (intro check_no) (auto simp: checkIfQuorumVotes_def Let_def)
  qed
next
  case (HandleNewBlockQC bqc)
  show ?thesis
  proof (cases "fmlookup (pendingBlocksQC n) (Height (bq_Block bqc))")
    case None
    then show ?thesis using assms HandleNewBlockQC
      by (intro qc_new) (auto simp: handleNewBlockQC_def)
  next
    case (Some q)
    then show ?thesis using assms HandleNewBlockQC
      by (intro qc_dup) (auto simp: handleNewBlockQC_def)
  qed
next
  case (CommitAncestor bqc)
  then show ?thesis using assms by (intro commit) (auto simp: bind_outcome_Ret_iff)
next
  case TryExtendChain
  show ?thesis
  proof (cases "fmlookup (pendingBlocksQC n) (chain_height (chain n) + 1)")
    case None
    then show ?thesis using assms TryExtendChain
      by (intro extend_none) (auto simp: tryExtendChain_def Let_def)
  next
    case (Some q)
    then show ?thesis using assms TryExtendChain
      by (intro extend) (auto simp: tryExtendChain_def Let_def)
  qed
next
  case (HandleSortitionMsg m)
  then show ?thesis using assms
    by (intro sortition) (auto simp: handleSortitionMsg_def Let_def)
qed

section \<open>What each step leaves alone\<close>

lemma ensure_pending_frame:
  assumes "ensure_pending n h = (n1, r)"
  shows "\<exists>pb bs nm. n1 = n\<lparr>pendingBlocks := pb, block_store := bs, next_map := nm\<rparr>"
proof (cases "fmlookup (pendingBlocks n) h")
  case None
  with assms show ?thesis by (auto simp: ensure_pending_def)
next
  case (Some r')
  with assms have "n1 = n\<lparr>pendingBlocks := pendingBlocks n, block_store := block_store n,
      next_map := next_map n\<rparr>"
    by (simp add: ensure_pending_def)
  then show ?thesis by blast
qed

lemma next_round_frame: "next_round n rounds h = (k, n1) \<Longrightarrow> \<exists>sr. n1 = n\<lparr>sortitionResult := sr\<rparr>"
proof (cases "fmlookup (sortitionResult n) h")
  case (Some s)
  moreover assume "next_round n rounds h = (k, n1)"
  ultimately have "n1 = n\<lparr>sortitionResult := sortitionResult n\<rparr>" by (simp add: next_round_def)
  then show ?thesis by blast
qed (auto simp: next_round_def)

lemma propose_draw_frame:
  assumes "propose_draw c rounds n prev = Ret (ph, n', out)"
  shows "\<exists>sr. n' = n\<lparr>sortitionResult := sr\<rparr>" and "MsgVote v \<notin> set out"
    and "ph = Packaging prev \<or> (\<exists>m. ph = Writing (MsgSortition m))"
proof -
  obtain k n1 where nr: "next_round n rounds (Height prev + 1) = (k, n1)" by fastforce
  from assms nr have "n' = n1" by (auto simp: propose_draw_def broadcast_out_eq Let_def split: if_splits)
  with next_round_frame [OF nr] show "\<exists>sr. n' = n\<lparr>sortitionResult := sr\<rparr>" by simp
  from assms nr show "MsgVote v \<notin> set out" "ph = Packaging prev \<or> (\<exists>m. ph = Writing (MsgSortition m))"
    by (auto simp: propose_draw_def broadcast_out_eq Let_def split: if_splits)
qed

text \<open>Drawing lots panics only where signing the loss does.\<close>

lemma propose_draw_Panic:
  assumes "propose_draw c rounds n prev = Panic e"
  shows "length (privateKey n) \<noteq> 64"
proof -
  obtain k n1 where nr: "next_round n rounds (Height prev + 1) = (k, n1)" by fastforce
  with next_round_frame [OF nr] assms show ?thesis
    by (auto simp: propose_draw_def broadcast_out_eq Let_def split: if_splits)
qed

lemma propose_package_eq:
  "propose_package c n prev =
     (if length (privateKey n) \<noteq> 64 then Panic BadKeyLength
      else
       (let msg = MsgBlock (NewBlock (node_name n) (Height prev + 1) (Some (block_hash c prev))
              (Some (take 1000 (requestPool n)))) in
        Ret (Writing msg, n\<lparr>requestPool := drop 1000 (requestPool n)\<rparr>, [msg])))"
  by (simp add: propose_package_def drain_pool_def broadcast_out_eq Let_def)

lemma propose_written_tasks: "propose_written msg l = (l', ts) \<Longrightarrow> ts \<in> {[], [SendHeight 0]}"
  by (cases msg) auto

text \<open>All that the proposing loop touches of the node.\<close>

lemma loop_step_frame:
  assumes "loop_step c n l n' l' ts out"
  obtains ch sr rp where
    "n' = n\<lparr>candidateHeightUpdated := ch, sortitionResult := sr, requestPool := rp\<rparr>"
    "ch = candidateHeightUpdated n \<or> (\<exists>h. candidateHeightUpdated n = h # ch)"
    "ts \<in> {[], [SendHeight 0]}" "\<And>v. MsgVote v \<notin> set out"
  using assms
proof (cases rule: loop_step.cases)
  case (loop_receive h hs)
  then show ?thesis
    by (intro that [where ch = hs and sr = "sortitionResult n" and rp = "requestPool n"]) auto
next
  case (loop_draw prev rounds ph)
  note frame = propose_draw_frame [OF loop_draw(5)]
  from frame(1) obtain sr where "n' = n\<lparr>sortitionResult := sr\<rparr>" ..
  with frame(2) loop_draw show ?thesis
    by (intro that [where ch = "candidateHeightUpdated n" and sr = sr and rp = "requestPool n"]) auto
next
  case (loop_package prev)
  then show ?thesis
    by (intro that [where ch = "candidateHeightUpdated n" and sr = "sortitionResult n" and rp = "drop 1000 (requestPool n)"])
      (auto simp: propose_package_eq Let_def split: if_splits)
next
  case (loop_written msg)
  with propose_written_tasks [OF loop_written(4)] show ?thesis
    by (intro that [where ch = "candidateHeightUpdated n" and sr = "sortitionResult n" and rp = "requestPool n"]) auto
qed (intro that [where ch = "candidateHeightUpdated n" and sr = "sortitionResult n" and rp = "requestPool n"]; simp)+

end
