(* ===== verification/Node_Invariants.thy ===== *)
theory Node_Invariants
  imports Node_Steps
begin

text \<open>
  What holds in every reachable state of a node, whatever the messages it receives and
  the order its goroutines run in:
  \<^item> \<open>store_inv\<close>: how the shared maps of blocks are owned, and that every block is filed
    under its height and its hash;
  \<^item> \<open>chain_inv\<close>: both chains have no gaps;
  \<^item> \<open>qc_inv\<close>: at most one certificate per height is under way, so the branch that keeps
    the lock is never taken;
  \<^item> \<open>quorum_inv\<close>: a certificate is built from the votes of a quorum;
  \<^item> \<open>wake_inv\<close>: no wake-up is lost.
\<close>

section \<open>Ownership of the shared maps\<close>

definition owns :: "('ps, 'pp) node \<Rightarrow> u64 \<Rightarrow> mapref \<Rightarrow> bool" where
  "owns n h r \<longleftrightarrow> fmlookup (pendingBlocks n) h = Some r \<or> (h = 0 \<and> r = 0)"

definition filed :: "('ps, 'pp) crypto \<Rightarrow> u64 \<Rightarrow> (string, Block) fmap \<Rightarrow> bool" where
  "filed c h m \<longleftrightarrow> (\<forall>s b. fmlookup m s = Some b \<longrightarrow> Height b = h \<and> block_key c b = s)"

definition store_inv :: "('ps, 'pp) crypto \<Rightarrow> ('ps, 'pp) node \<Rightarrow> bool" where
  "store_inv c n \<longleftrightarrow>
     0 < next_map n \<and>
     (\<forall>h r. fmlookup (pendingBlocks n) h = Some r \<longrightarrow> 0 < r \<and> r < next_map n) \<and>
     (\<forall>h h' r. fmlookup (pendingBlocks n) h = Some r \<longrightarrow>
        fmlookup (pendingBlocks n) h' = Some r \<longrightarrow> h = h') \<and>
     (\<forall>h r. fmlookup (cc_blocks (candidateChain n)) h = Some r \<longrightarrow> owns n h r) \<and>
     (\<forall>h r. owns n h r \<longrightarrow> filed c h (block_store n r) \<and> block_store n r \<noteq> fmempty)"

lemma fmupd_nonempty [simp]: "fmupd k v m \<noteq> fmempty"
  by (metis fmdom_empty fmdom_fmupd finsert_not_fempty)

lemma filed_fmupd: "filed c h m \<Longrightarrow> Height b = h \<Longrightarrow> filed c h (fmupd (block_key c b) b m)"
  by (auto simp: filed_def)

lemma filed_empty [simp]: "filed c h fmempty"
  by (simp add: filed_def)

lemma owns_unique: "store_inv c n \<Longrightarrow> owns n h r \<Longrightarrow> owns n h' r \<Longrightarrow> h = h'"
  by (auto simp: store_inv_def owns_def)

text \<open>A block written into the map that belongs to its height.\<close>

lemma store_inv_write:
  assumes inv: "store_inv c n" and own: "owns n (Height b) r"
  shows "store_inv c (n\<lparr>block_store := (block_store n)(r := fmupd (block_key c b) b (block_store n r))\<rparr>)"
    (is "store_inv c ?n'")
proof -
  have "filed c h (block_store ?n' r') \<and> block_store ?n' r' \<noteq> fmempty" if "owns n h r'" for h r'
  proof (cases "r' = r")
    case True
    with that have "h = Height b" using owns_unique [OF inv own] by simp
    with True inv that show ?thesis by (auto simp: store_inv_def filed_fmupd)
  next
    case False
    with inv that show ?thesis by (auto simp: store_inv_def)
  qed
  then show ?thesis using inv by (auto simp: store_inv_def owns_def)
qed

lemma store_inv_new_block:
  assumes inv: "store_inv c n" and ens: "ensure_pending n (Height b) = (n1, r)"
  shows "store_inv c (n1\<lparr>block_store := (block_store n1)(r := fmupd (block_key c b) b (block_store n1 r))\<rparr>)"
    (is "store_inv c ?n'")
proof (cases "fmlookup (pendingBlocks n) (Height b)")
  case (Some r')
  with ens have "n1 = n" "r = r'" by (simp_all add: ensure_pending_def)
  with Some inv show ?thesis using store_inv_write [of c n b r] by (simp add: owns_def)
next
  case None
  then have n1: "n1 = n\<lparr>pendingBlocks := fmupd (Height b) (next_map n) (pendingBlocks n),
      block_store := (block_store n)(next_map n := fmempty), next_map := Suc (next_map n)\<rparr>"
    and r: "r = next_map n"
    using ens by (auto simp: ensure_pending_def)
  have "filed c h (block_store ?n' r') \<and> block_store ?n' r' \<noteq> fmempty" if "owns ?n' h r'" for h r'
  proof (cases "r' = next_map n")
    case True
    with that inv have "h = Height b"
      unfolding n1 r owns_def store_inv_def by (auto split: if_splits)
    with True show ?thesis unfolding n1 r by (simp add: filed_fmupd)
  next
    case False
    with that have "owns n h r'" unfolding n1 r owns_def by (auto split: if_splits)
    with False inv show ?thesis unfolding n1 r store_inv_def by simp
  qed
  moreover have "owns ?n' h r'" if "fmlookup (cc_blocks (candidateChain n)) h = Some r'" for h r'
  proof -
    have "owns n h r'" using inv that by (simp add: store_inv_def)
    then show ?thesis using None unfolding n1 owns_def by auto
  qed
  ultimately show ?thesis
    using inv unfolding store_inv_def n1 r by (auto simp: less_Suc_eq split: if_splits)
qed

lemma commit_frame:
  assumes "CommitAncestorByBlockQC n bqc = Ret n'"
  shows "\<exists>ch. n' = n\<lparr>chain := ch\<rparr>"
  using assms
proof (cases rule: CommitAncestor_Ret)
  case 1
  then have "n' = n\<lparr>chain := chain n\<rparr>" by simp
  then show ?thesis ..
next
  case 2
  then show ?thesis by blast
qed

lemma store_inv_run:
  assumes inv: "store_inv c n" and run: "run_task c order n t = Ret (n', ts, out)"
  shows "store_inv c n'"
  using run
proof (cases rule: run_task_Ret)
  case (new_block b n1 r)
  with inv show ?thesis by (simp add: store_inv_new_block)
next
  case (update b r)
  with inv have "owns n (Height b) r" by (simp add: store_inv_def)
  with inv update show ?thesis by (simp add: store_inv_write)
next
  case (extend_cand r)
  with inv show ?thesis by (auto simp: store_inv_def owns_def)
next
  case (vote_msg v)
  then obtain ps where "n' = n\<lparr>partialSigs := ps\<rparr>" by (auto simp: handleVoteMsg_def Let_def)
  with inv show ?thesis by (simp add: store_inv_def owns_def)
next
  case (commit bqc)
  then obtain ch where "n' = n\<lparr>chain := ch\<rparr>" using commit_frame by blast
  with inv show ?thesis by (simp add: store_inv_def owns_def)
qed (use inv in \<open>simp_all add: store_inv_def owns_def\<close>)

lemma store_inv_propose:
  assumes inv: "store_inv c n"
    and turn: "loop_step c n l n' l' ts out"
  shows "store_inv c n'"
  using turn by (cases rule: loop_step_frame) (use inv in \<open>simp add: store_inv_def owns_def\<close>)

lemma NewNode_Ret:
  assumes "NewNode c conf = Ret n"
  shows "chain n = \<lparr>chain_blocks = fmupd 0 \<lparr>bq_Block = genesis, QC = Some []\<rparr> fmempty, chain_height = 0\<rparr>"
    and "candidateChain n = \<lparr>cc_blocks = fmupd 0 0 fmempty, cc_height = 0\<rparr>"
    and "candidateHeightUpdated n = [0]" and "voted n = fmempty" and "pendingBlocksQC n = fmempty"
    and "pendingBlocks n = fmempty" and "partialSigs n = fmempty" and "qcCreated n = fmempty"
    and "block_store n = (\<lambda>r. if r = 0 then fmupd (block_key c genesis) genesis fmempty else fmempty)"
    and "next_map n = 1" and "\<not> lock_kept n" and "publicKeyMap n = conf_PublicKeyMap conf"
    and "node_name n = conf_Name conf" and "privateKey n = conf_PrivateKey conf"
    and "quorumNum n = quorum_of (map_len (conf_ClusterAddr conf))"
    and "nodeNum n = int (map_len (conf_ClusterAddr conf))"
    and "tsPublicKey n = conf_TsPublicKey conf" and "tsPrivateKey n = conf_TsPrivateKey conf"
proof -
  obtain s where "NewSortitioner (conf_Probability conf)
      (case fmlookup (conf_PublicKeyMap conf) (conf_Name conf) of None \<Rightarrow> [] | Some k \<Rightarrow> k)
      (conf_PrivateKey conf) = Inr s"
    using assms by (cases "NewSortitioner (conf_Probability conf)
      (case fmlookup (conf_PublicKeyMap conf) (conf_Name conf) of None \<Rightarrow> [] | Some k \<Rightarrow> k)
      (conf_PrivateKey conf)") (simp_all add: NewNode_def Let_def)
  note n = assms [unfolded NewNode_def Let_def this sum.case outcome.inject, symmetric]
  show "chain n = \<lparr>chain_blocks = fmupd 0 \<lparr>bq_Block = genesis, QC = Some []\<rparr> fmempty, chain_height = 0\<rparr>"
    and "candidateChain n = \<lparr>cc_blocks = fmupd 0 0 fmempty, cc_height = 0\<rparr>"
    and "candidateHeightUpdated n = [0]" and "voted n = fmempty" and "pendingBlocksQC n = fmempty"
    and "pendingBlocks n = fmempty" and "partialSigs n = fmempty" and "qcCreated n = fmempty"
    and "block_store n = (\<lambda>r. if r = 0 then fmupd (block_key c genesis) genesis fmempty else fmempty)"
    and "next_map n = 1" and "\<not> lock_kept n" and "publicKeyMap n = conf_PublicKeyMap conf"
    and "node_name n = conf_Name conf" and "privateKey n = conf_PrivateKey conf"
    and "quorumNum n = quorum_of (map_len (conf_ClusterAddr conf))"
    and "nodeNum n = int (map_len (conf_ClusterAddr conf))"
    and "tsPublicKey n = conf_TsPublicKey conf" and "tsPrivateKey n = conf_TsPrivateKey conf"
    by (simp_all add: n fun_eq_iff)
qed

lemma store_inv_NewNode: "NewNode c conf = Ret n \<Longrightarrow> store_inv c n"
  by (frule NewNode_Ret(2), frule NewNode_Ret(6), frule NewNode_Ret(9), frule NewNode_Ret(10))
    (simp add: store_inv_def owns_def filed_def genesis_def)

section \<open>The two chains have no gaps\<close>

definition prefix_or_all :: "u64 \<Rightarrow> u64 set \<Rightarrow> bool" where
  "prefix_or_all h D \<longleftrightarrow> D = {..h} \<or> D = UNIV"

definition chain_inv :: "('ps, 'pp) node \<Rightarrow> bool" where
  "chain_inv n \<longleftrightarrow>
     prefix_or_all (cc_height (candidateChain n)) (fmdom' (cc_blocks (candidateChain n))) \<and>
     {..chain_height (chain n)} \<subseteq> fmdom' (chain_blocks (chain n)) \<and>
     (\<forall>h b. fmlookup (chain_blocks (chain n)) h = Some b \<longrightarrow> Height (bq_Block b) = h) \<and>
     (\<forall>h b. fmlookup (pendingBlocksQC n) h = Some b \<longrightarrow> Height (bq_Block b) = h)"

lemma atMost_Suc_u64: "{..h + 1} = (if h = - 1 then {0} else insert (h + 1) {..h :: u64})"
  by (auto simp: u64_le_Suc)

lemma atMost_max_u64 [simp]: "{..- 1 :: u64} = UNIV"
  by auto

lemma prefix_or_all_Suc:
  "prefix_or_all h D \<Longrightarrow> prefix_or_all (h + 1) (insert (h + 1) D)"
  by (auto simp: prefix_or_all_def atMost_Suc_u64)

lemma commit_loop_Ret:
  "commit_loop cand qc height i blk bs = Ret bs' \<Longrightarrow>
     (\<forall>j. \<not> (height < j \<and> j \<le> i) \<longrightarrow> fmlookup bs' j = fmlookup bs j) \<and>
     (\<forall>j. height < j \<and> j \<le> i \<longrightarrow>
        (\<exists>b. fmlookup bs' j = Some \<lparr>bq_Block = b, QC = qc\<rparr> \<and>
           (if j = i then blk = Some b
            else \<exists>d. fmlookup bs' (j + 1) = Some \<lparr>bq_Block = d, QC = qc\<rparr> \<and>
              cand j (hex_EncodeToString (contents (PreviousHash d))) = Some b)))"
proof (induction cand qc height i blk bs arbitrary: bs' rule: commit_loop.induct)
  case (1 cand qc height i blk bs)
  show ?case
  proof (cases "height < i")
    case False
    with "1.prems" show ?thesis by (auto simp: commit_loop.simps [of _ _ height i])
  next
    case True
    with "1.prems" obtain b where blk: "blk = Some b"
      by (auto simp: commit_loop.simps [of _ _ height i] split: option.splits)
    let ?s = "hex_EncodeToString (contents (PreviousHash b))"
    let ?q = "\<lparr>bq_Block = b, QC = qc\<rparr>"
    have rec: "commit_loop cand qc height (i - 1) (cand (i - 1) ?s) (fmupd i ?q bs) = Ret bs'"
      using "1.prems" True blk by (simp add: commit_loop.simps [of _ _ height i])
    have i0: "i \<noteq> 0" using True by (metis word_not_simps(1))
    then have le: "\<And>j. j \<le> i \<longleftrightarrow> j = i \<or> j \<le> i - 1"
      using u64_le_Suc [of "i - 1"] by fastforce
    have neq: "\<not> i \<le> i - 1"
      using i0 by (metis True linorder_not_le unat_dec_less word_less_nat_alt)
    note IH = "1.IH" [OF True blk rec]
    have bi: "fmlookup bs' i = Some ?q" using IH neq by auto
    have "fmlookup bs' j = fmlookup bs j" if "\<not> (height < j \<and> j \<le> i)" for j
    proof -
      have "j \<noteq> i" using that True by auto
      with that IH le show ?thesis by auto
    qed
    moreover have "\<exists>b'. fmlookup bs' j = Some \<lparr>bq_Block = b', QC = qc\<rparr> \<and>
           (if j = i then blk = Some b'
            else \<exists>d. fmlookup bs' (j + 1) = Some \<lparr>bq_Block = d, QC = qc\<rparr> \<and>
              cand j (hex_EncodeToString (contents (PreviousHash d))) = Some b')"
      if "height < j" "j \<le> i" for j
    proof (cases "j = i")
      case True
      with bi blk show ?thesis by simp
    next
      case False
      with that le have "j \<le> i - 1" by auto
      with IH that obtain b' where b': "fmlookup bs' j = Some \<lparr>bq_Block = b', QC = qc\<rparr>"
        "if j = i - 1 then cand (i - 1) ?s = Some b'
         else \<exists>d. fmlookup bs' (j + 1) = Some \<lparr>bq_Block = d, QC = qc\<rparr> \<and>
           cand j (hex_EncodeToString (contents (PreviousHash d))) = Some b'" by blast
      with False bi show ?thesis by (cases "j = i - 1") auto
    qed
    ultimately show ?thesis by blast
  qed
qed

lemma cc_block_filed:
  assumes "store_inv c n" and "cc_block (block_store n) (candidateChain n) h s = Some b"
  shows "Height b = h" and "block_key c b = s"
proof -
  from assms(2) obtain r where r: "fmlookup (cc_blocks (candidateChain n)) h = Some r"
    and b: "fmlookup (block_store n r) s = Some b"
    by (auto simp: cc_block_def cc_lookup_def split: option.splits)
  from r assms(1) have "filed c h (block_store n r)" by (simp add: store_inv_def)
  with b show "Height b = h" and "block_key c b = s" by (simp_all add: filed_def)
qed

lemma chain_inv_commit:
  assumes inv: "chain_inv n" and store: "store_inv c n"
    and commit: "CommitAncestorByBlockQC n bqc = Ret n'"
  shows "chain_inv n'"
  using commit
proof (cases rule: CommitAncestor_Ret)
  case 1
  with inv show ?thesis by simp
next
  case (2 b m blocks)
  let ?p = "Height (bq_Block bqc) - 1" and ?h = "chain_height (chain n)"
  let ?cand = "cc_block (block_store n) (candidateChain n)"
  note loop = commit_loop_Ret [OF 2(3)]
  have b: "Height b = ?p"
    using cc_block_filed(1) [OF store, of ?p] 2(1,2) by (simp add: cc_block_def)
  have new: "\<exists>d q. fmlookup blocks j = Some \<lparr>bq_Block = d, QC = q\<rparr> \<and> Height d = j"
    if "?h < j" "j \<le> ?p" for j
  proof -
    from loop that obtain d where d: "fmlookup blocks j = Some \<lparr>bq_Block = d, QC = QC bqc\<rparr>"
      "if j = ?p then Some b = Some d
       else \<exists>e. fmlookup blocks (j + 1) = Some \<lparr>bq_Block = e, QC = QC bqc\<rparr> \<and>
              ?cand j (hex_EncodeToString (contents (PreviousHash e))) = Some d" by blast
    have "Height d = j"
      using d(2) b cc_block_filed(1) [OF store] by (cases "j = ?p") auto
    with d(1) show ?thesis by blast
  qed
  have old: "fmlookup blocks j = fmlookup (chain_blocks (chain n)) j" if "\<not> (?h < j \<and> j \<le> ?p)" for j
    using loop that by blast
  have "{..?p} \<subseteq> fmdom' blocks"
  proof
    fix j assume "j \<in> {..?p}"
    then show "j \<in> fmdom' blocks"
    proof (cases "?h < j")
      case True
      with new \<open>j \<in> {..?p}\<close> show ?thesis by (fastforce intro: fmdom'I)
    next
      case False
      then have "j \<in> fmdom' (chain_blocks (chain n))" using inv by (auto simp: chain_inv_def)
      then show ?thesis using old [of j] False by (metis fmdom'_notD fmdom'_notI)
    qed
  qed
  moreover have "Height (bq_Block d) = j" if "fmlookup blocks j = Some d" for j d
  proof (cases "?h < j \<and> j \<le> ?p")
    case True
    with new that show ?thesis by fastforce
  next
    case False
    with old that inv show ?thesis by (simp add: chain_inv_def)
  qed
  ultimately show ?thesis using inv 2(4) by (simp add: chain_inv_def)
qed

lemma chain_inv_run:
  assumes inv: "chain_inv n" and store: "store_inv c n"
    and run: "run_task c order n t = Ret (n', ts, out)"
  shows "chain_inv n'"
  using run
proof (cases rule: run_task_Ret)
  case (new_block b n1 r)
  with ensure_pending_frame [OF new_block(3)] inv show ?thesis by (auto simp: chain_inv_def)
next
  case (extend_cand r)
  with inv show ?thesis by (simp add: chain_inv_def prefix_or_all_Suc)
next
  case (vote_msg v)
  then obtain ps where "n' = n\<lparr>partialSigs := ps\<rparr>" by (auto simp: handleVoteMsg_def Let_def)
  with inv show ?thesis by (simp add: chain_inv_def)
next
  case (qc_new bqc)
  with inv show ?thesis by (simp add: chain_inv_def)
next
  case (commit bqc)
  with inv store show ?thesis by (blast intro: chain_inv_commit)
next
  case (extend bqc)
  with inv show ?thesis by (auto simp: chain_inv_def atMost_Suc_u64 split: if_splits)
qed (use inv in \<open>simp_all add: chain_inv_def\<close>)

lemma chain_inv_propose:
  assumes inv: "chain_inv n"
    and turn: "loop_step c n l n' l' ts out"
  shows "chain_inv n'"
  using turn by (cases rule: loop_step_frame) (use inv in \<open>simp add: chain_inv_def\<close>)

lemma atMost_0_u64 [simp]: "{..0 :: u64} = {0}"
  by auto

lemma chain_inv_NewNode: "NewNode c conf = Ret n \<Longrightarrow> chain_inv n"
  by (frule NewNode_Ret(1), frule NewNode_Ret(2), frule NewNode_Ret(5))
    (simp add: chain_inv_def prefix_or_all_def genesis_def)

section \<open>At most one certificate per height\<close>

fun qc_task :: "u64 \<Rightarrow> task \<Rightarrow> bool" where
  "qc_task h (BuildBlockWithQC h' s) = (h' = h)"
| "qc_task h (HandleNewBlockQC bqc) = (Height (bq_Block bqc) = h)"
| "qc_task h t = False"

definition qc_work :: "u64 \<Rightarrow> task multiset \<Rightarrow> nat" where
  "qc_work h M = size (filter_mset (qc_task h) M)"

definition qc_filed :: "('ps, 'pp) node \<Rightarrow> u64 \<Rightarrow> nat" where
  "qc_filed n h = of_bool (fmlookup (pendingBlocksQC n) h \<noteq> None)"

definition qc_inv :: "('ps, 'pp) node \<Rightarrow> task multiset \<Rightarrow> bool" where
  "qc_inv n M \<longleftrightarrow>
     \<not> lock_kept n \<and> (\<forall>h. qc_filed n h + qc_work h M \<le> of_bool (lookup_bool (qcCreated n) h))"

lemma qc_work_simps [simp]:
  "qc_work h {#} = 0"
  "qc_work h (add_mset t M) = of_bool (qc_task h t) + qc_work h M"
  "qc_work h (M + N) = qc_work h M + qc_work h N"
  by (simp_all add: qc_work_def)

lemma lookup_bool_set [simp]:
  "lookup_bool (fmupd k True m) k' = (k' = k \<or> lookup_bool m k')"
  by (simp add: lookup_bool_def)

lemma qc_inv_cong:
  assumes "qc_inv n M" "pendingBlocksQC n' = pendingBlocksQC n" "qcCreated n' = qcCreated n"
    "lock_kept n' = lock_kept n" "\<And>h. qc_work h M' \<le> qc_work h M"
  shows "qc_inv n' M'"
  using assms unfolding qc_inv_def qc_filed_def by (metis add_le_cancel_left order_trans)

lemma pending_block_filed:
  assumes "store_inv c n" "pending_block n h s = Some b"
  shows "Height b = h" and "block_key c b = s"
proof -
  obtain r where r: "fmlookup (pendingBlocks n) h = Some r" "fmlookup (block_store n r) s = Some b"
    using assms(2) by (auto simp: pending_block_def pending_lookup_def split: option.splits)
  with assms(1) have "filed c h (block_store n r)" by (auto simp: store_inv_def owns_def)
  with r show "Height b = h" and "block_key c b = s" by (simp_all add: filed_def)
qed

lemma qc_inv_run:
  assumes inv: "qc_inv n (add_mset t rest)" and store: "store_inv c n"
    and run: "run_task c order n t = Ret (n', ts, out)"
  shows "qc_inv n' (rest + mset ts)"
  using run
proof (cases rule: run_task_Ret)
  case (new_block b n1 r)
  show ?thesis
    by (rule qc_inv_cong [OF inv]) (use new_block ensure_pending_frame [OF new_block(3)] in auto)
next
  case (vote_msg v)
  then show ?thesis
    by (intro qc_inv_cong [OF inv]) (auto simp: handleVoteMsg_def Let_def)
next
  case (check_yes h s)
  have "qc_filed n' h' + qc_work h' (rest + mset ts) \<le> of_bool (lookup_bool (qcCreated n') h')" for h'
  proof -
    have "qc_filed n h' + qc_work h' rest \<le> of_bool (lookup_bool (qcCreated n) h')"
      using inv check_yes(1) by (simp add: qc_inv_def)
    with check_yes show ?thesis by (cases "h' = h") (simp_all add: qc_filed_def)
  qed
  with inv check_yes show ?thesis by (simp add: qc_inv_def)
next
  case (build h s b sig)
  have "Height b = h" using pending_block_filed(1) [OF store build(4)] .
  with build show ?thesis by (intro qc_inv_cong [OF inv]) auto
next
  case (qc_dup bqc)
  have "qc_filed n (Height (bq_Block bqc)) + qc_work (Height (bq_Block bqc)) (add_mset t rest) \<le> 1"
    using inv unfolding qc_inv_def by (metis of_bool_less_eq_one order_trans)
  with qc_dup show ?thesis by (auto simp: qc_filed_def)
next
  case (qc_new bqc)
  have "qc_filed n' h + qc_work h (rest + mset ts) \<le> of_bool (lookup_bool (qcCreated n') h)" for h
  proof -
    have "qc_filed n h + qc_work h (add_mset t rest) \<le> of_bool (lookup_bool (qcCreated n) h)"
      using inv by (simp add: qc_inv_def)
    with qc_new show ?thesis by (cases "h = Height (bq_Block bqc)") (simp_all add: qc_filed_def)
  qed
  with inv qc_new show ?thesis by (simp add: qc_inv_def)
next
  case (commit bqc)
  then obtain ch where "n' = n\<lparr>chain := ch\<rparr>" using commit_frame by blast
  with commit show ?thesis by (intro qc_inv_cong [OF inv]) auto
next
  case (extend bqc)
  have "qc_filed n' h + qc_work h (rest + mset ts) \<le> of_bool (lookup_bool (qcCreated n') h)" for h
  proof -
    have "qc_filed n h + qc_work h (add_mset t rest) \<le> of_bool (lookup_bool (qcCreated n) h)"
      using inv by (simp add: qc_inv_def)
    moreover have "qc_filed n' h \<le> qc_filed n h" using extend by (simp add: qc_filed_def)
    ultimately show ?thesis using extend by simp
  qed
  with inv extend show ?thesis by (simp add: qc_inv_def)
qed (use inv in \<open>auto intro: qc_inv_cong [OF inv]\<close>)

lemma qc_inv_propose:
  assumes inv: "qc_inv n M"
    and turn: "loop_step c n l n' l' ts out"
  shows "qc_inv n' (M + mset ts)"
  using turn by (cases rule: loop_step_frame) (auto intro: qc_inv_cong [OF inv])

lemma handler_task_no_qc [simp]: "\<not> qc_task h (handler_task m)"
  by (cases m) simp_all

lemma HandleMsgsLoop_turn_Ret:
  assumes "HandleMsgsLoop_turn c n m sig = Ret ts"
  obtains "ts = []"
  | "ts = [handler_task m]"
    "verifySigED25519 c n (claimed_sender m) (goval_of_message m) sig = Ret True"
  using assms by (auto simp: HandleMsgsLoop_turn_def bind_outcome_Ret_iff split: if_splits)

lemma qc_inv_receive:
  assumes inv: "qc_inv n M" and turn: "HandleMsgsLoop_turn c n m sig = Ret ts"
  shows "qc_inv n (M + mset ts)"
  using turn by (cases rule: HandleMsgsLoop_turn_Ret) (auto intro: qc_inv_cong [OF inv])

lemma qc_inv_NewNode: "NewNode c conf = Ret n \<Longrightarrow> qc_inv n {#}"
  by (frule NewNode_Ret(5), frule NewNode_Ret(8), frule NewNode_Ret(11))
    (simp add: qc_inv_def qc_filed_def)

end
