(* ===== verification/Node_Quorum.thy ===== *)
theory Node_Quorum
  imports Node_Invariants
begin

text \<open>
  Where certificates come from. \<open>votes_inv\<close>: the voters a node has recorded are names in
  its key table. \<open>quorum_inv\<close>: every certificate on its way to the chain was recovered
  from the votes of a quorum for a block the node holds. \<open>committed_inv\<close>: every block of
  the committed chain is the certified block of such a certificate or an ancestor of it.
\<close>

section \<open>What no goroutine changes, and what only grows\<close>

definition static :: "('ps, 'pp) node \<Rightarrow>
    string \<times> int \<times> int \<times> 'pp \<times> 'ps \<times> (string, bytes) fmap \<times> bytes \<times> Sortitioner" where
  "static n = (node_name n, quorumNum n, nodeNum n, tsPublicKey n, tsPrivateKey n,
     publicKeyMap n, privateKey n, sortitioner n)"

lemma handleVoteMsg_frame:
  "(n', ts, out) = handleVoteMsg n v \<Longrightarrow> \<exists>ps. n' = n\<lparr>partialSigs := ps\<rparr>"
  by (auto simp: handleVoteMsg_def Let_def)

lemma static_run:
  assumes "run_task c order n t = Ret (n', ts, out)"
  shows "static n' = static n"
  using assms
proof (cases rule: run_task_Ret)
  case (new_block b n1 r)
  with ensure_pending_frame [OF new_block(3)] show ?thesis by (auto simp: static_def)
next
  case (vote_msg v)
  with handleVoteMsg_frame show ?thesis by (fastforce simp: static_def)
next
  case (commit bqc)
  then obtain ch where "n' = n\<lparr>chain := ch\<rparr>" using commit_frame by blast
  then show ?thesis by (simp add: static_def)
qed (simp_all add: static_def)

lemma static_propose:
  assumes "loop_step c n l n' l' ts out"
  shows "static n' = static n"
  using assms by (cases rule: loop_step_frame) (simp add: static_def)

lemma handleVoteMsg_votes:
  assumes "(n', ts, out) = handleVoteMsg n v"
  shows "votes_for n' h s =
    (if h = BlockHeight (v_PlainVote v) \<and>
        s = hex_EncodeToString (contents (BlockHash (v_PlainVote v)))
     then fmupd (Sender v) (PartialSig v) (votes_for n h s) else votes_for n h s)"
  using assms by (auto simp: handleVoteMsg_def votes_for_def lookup_nil_def Let_def)

lemma votes_frame:
  assumes "run_task c order n t = Ret (n', ts, out)" and "\<And>v. t \<noteq> HandleVoteMsg v"
  shows "votes_for n' h s = votes_for n h s"
  using assms(1)
proof (cases rule: run_task_Ret)
  case (new_block b n1 r)
  with ensure_pending_frame [OF new_block(3)] show ?thesis by (auto simp: votes_for_def)
next
  case (vote_msg v)
  with assms(2) [of v] show ?thesis by simp
next
  case (commit bqc)
  then obtain ch where "n' = n\<lparr>chain := ch\<rparr>" using commit_frame by blast
  then show ?thesis by (simp add: votes_for_def)
qed (simp_all add: votes_for_def)

lemma votes_run:
  assumes "run_task c order n t = Ret (n', ts, out)"
  shows "fmdom (votes_for n h s) |\<subseteq>| fmdom (votes_for n' h s)"
proof (cases "\<exists>v. t = HandleVoteMsg v")
  case True
  then obtain v where "t = HandleVoteMsg v" ..
  with assms have "(n', ts, out) = handleVoteMsg n v" by simp
  then show ?thesis by (auto simp: handleVoteMsg_votes)
next
  case False
  with assms votes_frame [of c order n t n' ts out h s] show ?thesis by simp
qed

lemma map_len_mono: "fmdom m |\<subseteq>| fmdom m' \<Longrightarrow> map_len m \<le> map_len m'"
  unfolding map_len_def by (simp add: fcard_mono)

lemma pending_block_run:
  assumes inv: "store_inv c n" and run: "run_task c order n t = Ret (n', ts, out)"
    and held: "pending_block n h s \<noteq> None"
  shows "pending_block n' h s \<noteq> None"
  using run
proof (cases rule: run_task_Ret)
  case (new_block b n1 r)
  obtain r' where r': "fmlookup (pendingBlocks n) h = Some r'" "fmlookup (block_store n r') s \<noteq> None"
    using held by (auto simp: pending_block_def pending_lookup_def split: option.splits)
  then have "r' < next_map n" using inv by (simp add: store_inv_def)
  with r' new_block show ?thesis
    by (auto simp: pending_block_def pending_lookup_def ensure_pending_def split: option.splits if_splits)
next
  case (update b r)
  with held show ?thesis by (auto simp: pending_block_def pending_lookup_def split: option.splits)
next
  case (vote_msg v)
  with handleVoteMsg_frame held show ?thesis by (fastforce simp: pending_block_def pending_lookup_def)
next
  case (commit bqc)
  then obtain ch where "n' = n\<lparr>chain := ch\<rparr>" using commit_frame by blast
  with held show ?thesis by (simp add: pending_block_def pending_lookup_def)
qed (use held in \<open>simp_all add: pending_block_def pending_lookup_def\<close>)

section \<open>The recorded voters\<close>

definition votes_inv :: "('ps, 'pp) node \<Rightarrow> task multiset \<Rightarrow> bool" where
  "votes_inv n M \<longleftrightarrow>
     (\<forall>h s. fmdom (votes_for n h s) |\<subseteq>| fmdom (publicKeyMap n)) \<and>
     (\<forall>v. HandleVoteMsg v \<in># M \<longrightarrow> Sender v |\<in>| fmdom (publicKeyMap n))"

lemma static_D:
  "static n' = static n \<Longrightarrow> publicKeyMap n' = publicKeyMap n"
  "static n' = static n \<Longrightarrow> quorumNum n' = quorumNum n"
  "static n' = static n \<Longrightarrow> nodeNum n' = nodeNum n"
  "static n' = static n \<Longrightarrow> tsPublicKey n' = tsPublicKey n"
  "static n' = static n \<Longrightarrow> tsPrivateKey n' = tsPrivateKey n"
  "static n' = static n \<Longrightarrow> node_name n' = node_name n"
  "static n' = static n \<Longrightarrow> privateKey n' = privateKey n"
  by (simp_all add: static_def)

lemma run_task_no_vote_msg:
  "run_task c order n t = Ret (n', ts, out) \<Longrightarrow> HandleVoteMsg v \<notin> set ts"
  by (erule run_task_Ret) (auto simp: handleVoteMsg_def Let_def)

lemma votes_inv_run:
  assumes inv: "votes_inv n (add_mset t rest)" and run: "run_task c order n t = Ret (n', ts, out)"
  shows "votes_inv n' (rest + mset ts)"
proof -
  have keys: "publicKeyMap n' = publicKeyMap n" using static_run [OF run] by (rule static_D)
  have "fmdom (votes_for n' h s) |\<subseteq>| fmdom (publicKeyMap n)" for h s
  proof (cases "\<exists>v. t = HandleVoteMsg v")
    case True
    then obtain v where v: "t = HandleVoteMsg v" ..
    with run have "(n', ts, out) = handleVoteMsg n v" by simp
    with inv v show ?thesis by (auto simp: handleVoteMsg_votes votes_inv_def)
  next
    case False
    with run votes_frame [of c order n t n' ts out h s] inv show ?thesis by (simp add: votes_inv_def)
  qed
  with inv run_task_no_vote_msg [OF run] keys show ?thesis by (auto simp: votes_inv_def)
qed

lemma votes_for_propose:
  assumes "loop_step c n l n' l' ts out"
  shows "votes_for n' h s = votes_for n h s" and "pending_block n' h s = pending_block n h s"
    and "chain n' = chain n" and "pendingBlocksQC n' = pendingBlocksQC n"
    and "candidateChain n' = candidateChain n" and "block_store n' = block_store n"
    and "voted n' = voted n" and "qcCreated n' = qcCreated n"
    and "pendingBlocks n' = pendingBlocks n"
  by (atomize (full), rule loop_step_frame [OF assms])
    (simp add: votes_for_def pending_block_def pending_lookup_def)

lemma votes_inv_propose:
  assumes inv: "votes_inv n M"
    and turn: "loop_step c n l n' l' ts out"
  shows "votes_inv n' (M + mset ts)"
  using turn
  by (cases rule: loop_step_frame) (use inv in \<open>auto simp: votes_inv_def votes_for_def\<close>)

lemma verifySig_known:
  "verifySigED25519 c n x d sig = Ret True \<Longrightarrow> x |\<in>| fmdom (publicKeyMap n)"
  by (auto simp: verifySigED25519_def split: option.splits intro: fmdomI)

lemma votes_inv_receive:
  assumes inv: "votes_inv n M" and turn: "HandleMsgsLoop_turn c n m sig = Ret ts"
  shows "votes_inv n (M + mset ts)"
  using turn
proof (cases rule: HandleMsgsLoop_turn_Ret)
  case 2
  with inv verifySig_known [OF 2(2)] show ?thesis by (cases m) (auto simp: votes_inv_def)
qed (use inv in simp)

lemma votes_for_empty: "partialSigs n = fmempty \<Longrightarrow> votes_for n h s = fmempty"
  by (simp add: votes_for_def lookup_nil_def)

lemma votes_inv_NewNode: "NewNode c conf = Ret n \<Longrightarrow> votes_inv n {#}"
  by (frule NewNode_Ret(7)) (simp add: votes_inv_def votes_for_empty)

section \<open>Certificates come from quorums\<close>

definition has_quorum :: "('ps, 'pp) node \<Rightarrow> u64 \<Rightarrow> string \<Rightarrow> bool" where
  "has_quorum n h s \<longleftrightarrow> quorumNum n \<le> int (map_len (votes_for n h s)) \<and> pending_block n h s \<noteq> None"

definition certified :: "('ps, 'pp) crypto \<Rightarrow> ('ps, 'pp) node \<Rightarrow> BlockWithQC \<Rightarrow> bool" where
  "certified c n bqc \<longleftrightarrow>
     has_quorum n (Height (bq_Block bqc)) (block_key c (bq_Block bqc)) \<and>
     (\<exists>sig sigs. QC bqc = Some sig \<and>
        tbls_Recover c (tsPublicKey n) (vote_bytes c (bq_Block bqc)) sigs
          (quorumNum n) (nodeNum n) = Inr sig)"

definition quorum_inv :: "('ps, 'pp) crypto \<Rightarrow> ('ps, 'pp) node \<Rightarrow> task multiset \<Rightarrow> bool" where
  "quorum_inv c n M \<longleftrightarrow>
     (\<forall>h s. BuildBlockWithQC h s \<in># M \<longrightarrow> has_quorum n h s) \<and>
     (\<forall>bqc. HandleNewBlockQC bqc \<in># M \<longrightarrow> certified c n bqc) \<and>
     (\<forall>bqc. CommitAncestor bqc \<in># M \<longrightarrow> certified c n bqc) \<and>
     (\<forall>h bqc. fmlookup (pendingBlocksQC n) h = Some bqc \<longrightarrow> certified c n bqc)"

lemma has_quorum_run:
  assumes "store_inv c n" and run: "run_task c order n t = Ret (n', ts, out)" and "has_quorum n h s"
  shows "has_quorum n' h s"
proof -
  have "map_len (votes_for n h s) \<le> map_len (votes_for n' h s)"
    by (rule map_len_mono [OF votes_run [OF run]])
  moreover have "quorumNum n' = quorumNum n" using static_run [OF run] by (rule static_D)
  ultimately show ?thesis
    using assms(3) pending_block_run [OF assms(1) run] by (auto simp: has_quorum_def)
qed

lemma certified_run:
  assumes "store_inv c n" and run: "run_task c order n t = Ret (n', ts, out)" and "certified c n bqc"
  shows "certified c n' bqc"
  using assms(3) has_quorum_run [OF assms(1) run] static_D(2,3,4) [OF static_run [OF run]]
  by (auto simp: certified_def)

lemma buildBlockWithQC_certified:
  assumes store: "store_inv c n" and quorum: "has_quorum n h s"
    and build: "buildBlockWithQC c order n h s = Ret (n, ts, out)"
    and t: "HandleNewBlockQC bqc \<in> set ts"
  shows "certified c n bqc"
  using build
proof (cases rule: buildBlockWithQC_Ret)
  case (1 b sig)
  with t have bqc: "bqc = \<lparr>bq_Block = b, QC = Some sig\<rparr>" by simp
  have "Height b = h" "block_key c b = s" using pending_block_filed [OF store 1(1)] by simp_all
  with quorum bqc 1(4) show ?thesis by (auto simp: certified_def)
qed

lemma quorum_inv_run:
  assumes inv: "quorum_inv c n (add_mset t rest)" and store: "store_inv c n"
    and run: "run_task c order n t = Ret (n', ts, out)"
  shows "quorum_inv c n' (rest + mset ts)"
proof -
  note Q = has_quorum_run [OF store run] and C = certified_run [OF store run]
  have build: "has_quorum n' h s" if "BuildBlockWithQC h s \<in># rest + mset ts" for h s
  proof (cases "BuildBlockWithQC h s \<in># rest")
    case True
    with inv Q show ?thesis by (simp add: quorum_inv_def)
  next
    case False
    with that have "BuildBlockWithQC h s \<in> set ts" by simp
    with run have "has_quorum n h s"
      by (elim run_task_Ret) (auto simp: has_quorum_def handleVoteMsg_def Let_def)
    then show ?thesis by (rule Q)
  qed
  have newqc: "certified c n' bqc" if "HandleNewBlockQC bqc \<in># rest + mset ts" for bqc
  proof (cases "HandleNewBlockQC bqc \<in># rest")
    case True
    with inv C show ?thesis by (simp add: quorum_inv_def)
  next
    case False
    with that have new: "HandleNewBlockQC bqc \<in> set ts" by simp
    with run obtain h s where t: "t = BuildBlockWithQC h s"
      by (elim run_task_Ret) (auto simp: handleVoteMsg_def Let_def)
    with run have b: "buildBlockWithQC c order n h s = Ret (n', ts, out)" by simp
    then have "n' = n" by (rule buildBlockWithQC_Ret)
    with b new inv t store show ?thesis
      by (auto simp: quorum_inv_def intro: buildBlockWithQC_certified)
  qed
  have commit: "certified c n' bqc" if "CommitAncestor bqc \<in># rest + mset ts" for bqc
  proof (cases "CommitAncestor bqc \<in># rest")
    case True
    with inv C show ?thesis by (simp add: quorum_inv_def)
  next
    case False
    with that have "CommitAncestor bqc \<in> set ts" by simp
    with run have "t = HandleNewBlockQC bqc"
      by (elim run_task_Ret) (auto simp: handleVoteMsg_def Let_def)
    with inv C show ?thesis by (simp add: quorum_inv_def)
  qed
  have filed: "certified c n' bqc" if "fmlookup (pendingBlocksQC n') h = Some bqc" for h bqc
  proof -
    have "fmlookup (pendingBlocksQC n) h = Some bqc \<or> t = HandleNewBlockQC bqc"
      using run
    proof (cases rule: run_task_Ret)
      case (new_block b n1 r)
      with ensure_pending_frame [OF new_block(3)] that show ?thesis by auto
    next
      case (vote_msg v)
      with handleVoteMsg_frame that show ?thesis by fastforce
    next
      case (commit bqc')
      then obtain ch where "n' = n\<lparr>chain := ch\<rparr>" using commit_frame by blast
      with that show ?thesis by simp
    qed (use that in \<open>auto split: if_splits\<close>)
    with inv C show ?thesis by (auto simp: quorum_inv_def)
  qed
  from build newqc commit filed show ?thesis unfolding quorum_inv_def by blast
qed

lemma static_cong_certified:
  assumes "static n' = static n" and "\<And>h s. votes_for n' h s = votes_for n h s"
    and "\<And>h s. pending_block n' h s = pending_block n h s"
  shows "certified c n' bqc = certified c n bqc" and "has_quorum n' h s = has_quorum n h s"
  using assms static_D(2,3,4) [OF assms(1)] by (simp_all add: certified_def has_quorum_def)

lemma quorum_inv_propose:
  assumes inv: "quorum_inv c n M"
    and turn: "loop_step c n l n' l' ts out"
  shows "quorum_inv c n' (M + mset ts)"
proof -
  note eq = static_cong_certified [OF static_propose [OF turn] votes_for_propose(1,2) [OF turn]]
  have "set ts \<subseteq> {SendHeight 0}" using turn by (rule loop_step_frame) auto
  then show ?thesis using inv votes_for_propose(4) [OF turn] by (auto simp: quorum_inv_def eq)
qed

lemma quorum_inv_receive:
  assumes inv: "quorum_inv c n M" and turn: "HandleMsgsLoop_turn c n m sig = Ret ts"
  shows "quorum_inv c n (M + mset ts)"
  using turn
proof (cases rule: HandleMsgsLoop_turn_Ret)
  case 2
  with inv show ?thesis by (cases m) (auto simp: quorum_inv_def)
qed (use inv in simp)

lemma quorum_inv_NewNode: "NewNode c conf = Ret n \<Longrightarrow> quorum_inv c n {#}"
  by (frule NewNode_Ret(5)) (simp add: quorum_inv_def)

section \<open>Committed blocks\<close>

text \<open>The blocks of a set \<open>K\<close> that are reached from a block by following parent hashes down the
  heights, one step for each height.\<close>

definition parent_of :: "('ps, 'pp) crypto \<Rightarrow> Block set \<Rightarrow> Block \<Rightarrow> Block \<Rightarrow> bool" where
  "parent_of c K b p \<longleftrightarrow> p \<in> K \<and> Height p = Height b - 1 \<and>
     block_key c p = hex_EncodeToString (contents (PreviousHash b))"

definition ancestor :: "('ps, 'pp) crypto \<Rightarrow> Block set \<Rightarrow> Block \<Rightarrow> Block \<Rightarrow> bool" where
  "ancestor c K b e \<longleftrightarrow> (parent_of c K ^^ unat (Height b - Height e)) b e"

text \<open>A committed block descends, within \<open>K\<close>, from a certified block.\<close>

definition justified :: "('ps, 'pp) crypto \<Rightarrow> Block set \<Rightarrow> ('ps, 'pp) node \<Rightarrow> BlockWithQC \<Rightarrow> bool" where
  "justified c K n e \<longleftrightarrow>
     (\<exists>bqc. certified c n bqc \<and> bq_Block bqc \<in> K \<and> QC e = QC bqc \<and>
        ancestor c K (bq_Block bqc) (bq_Block e) \<and>
        (Height (bq_Block e) \<le> Height (bq_Block bqc) \<or> Height (bq_Block bqc) = 0))"

definition committed_in :: "('ps, 'pp) crypto \<Rightarrow> Block set \<Rightarrow> ('ps, 'pp) node \<Rightarrow> bool" where
  "committed_in c K n \<longleftrightarrow>
     (\<forall>h e. fmlookup (chain_blocks (chain n)) h = Some e \<longrightarrow>
        h = 0 \<and> e = \<lparr>bq_Block = genesis, QC = Some []\<rparr> \<or> justified c K n e)"

abbreviation committed_inv :: "('ps, 'pp) crypto \<Rightarrow> ('ps, 'pp) node \<Rightarrow> bool" where
  "committed_inv c n \<equiv> committed_in c UNIV n"

text \<open>All the blocks a node has, filed or with a goroutine, are in \<open>K\<close>.\<close>

fun task_blocks :: "task \<Rightarrow> Block set" where
  "task_blocks (HandleNewBlockMsg b) = {b}"
| "task_blocks (HandleNewBlock b) = {b}"
| "task_blocks (BroadcastVote b) = {b}"
| "task_blocks (CastVote b v) = {b}"
| "task_blocks (TryUpdateCandidateChain b) = {b}"
| "task_blocks (HandleNewBlockQC bqc) = {bq_Block bqc}"
| "task_blocks (CommitAncestor bqc) = {bq_Block bqc}"
| "task_blocks _ = {}"

definition blocks_within :: "Block set \<Rightarrow> ('ps, 'pp) node \<Rightarrow> task multiset \<Rightarrow> bool" where
  "blocks_within K n M \<longleftrightarrow>
     (\<forall>r s b. fmlookup (block_store n r) s = Some b \<longrightarrow> b \<in> K) \<and>
     (\<forall>t. t \<in># M \<longrightarrow> task_blocks t \<subseteq> K) \<and>
     (\<forall>h bqc. fmlookup (pendingBlocksQC n) h = Some bqc \<longrightarrow> bq_Block bqc \<in> K)"

lemma blocks_within_UNIV [simp]: "blocks_within UNIV n M"
  by (simp add: blocks_within_def)

lemma blocks_within_cand:
  "blocks_within K n M \<Longrightarrow> cc_block (block_store n) (candidateChain n) h s = Some b \<Longrightarrow> b \<in> K"
  by (auto simp: blocks_within_def cc_block_def cc_lookup_def split: option.splits)

lemma blocks_within_pending: "blocks_within K n M \<Longrightarrow> pending_block n h s = Some b \<Longrightarrow> b \<in> K"
  by (auto simp: blocks_within_def pending_block_def pending_lookup_def split: option.splits)

lemma ancestor_self [simp]: "ancestor c K b b"
  by (simp add: ancestor_def)

lemma ancestor_parent:
  assumes "ancestor c K b a" and "parent_of c K a p" and "Height p \<noteq> Height b"
  shows "ancestor c K b p"
proof -
  have "Height b - Height a \<noteq> - 1"
  proof
    assume "Height b - Height a = - 1"
    then have "1 + Height b = Height a" by (simp add: diff_eq_eq)
    moreover have "1 + Height p = Height a" using assms(2) by (simp add: parent_of_def)
    ultimately show False using assms(3) by (metis add_left_cancel)
  qed
  moreover have "Height b - Height p = Height b - Height a + 1" using assms(2) by (simp add: parent_of_def)
  ultimately have "unat (Height b - Height p) = Suc (unat (Height b - Height a))"
    using unat_Suc_u64 by metis
  with assms(1,2) show ?thesis by (auto simp: ancestor_def)
qed

lemma u64_below_pred: "j < (i :: u64) - 1 \<Longrightarrow> j \<noteq> i \<or> j = 0"
  by (cases "i = 0") (auto simp: word_less_nat_alt unat_minus_one)

lemma u64_le_pred: "j \<le> (i :: u64) - 1 \<Longrightarrow> j \<le> i \<or> i = 0"
  by (cases "i = 0") (auto simp: word_le_nat_alt unat_minus_one)

lemma u64_induct_down:
  assumes "P i" and "\<And>j. height < j \<Longrightarrow> j < i \<Longrightarrow> P (j + 1) \<Longrightarrow> P j"
    and "height < j" and "j \<le> (i :: u64)"
  shows "P j"
  using assms(3,4)
proof (induction "unat i - unat j" arbitrary: j)
  case 0
  then have "j = i" by (simp add: word_le_nat_alt word_unat_eq_iff)
  with assms(1) show ?case by simp
next
  case (Suc k)
  then have lt: "unat j < unat i" by simp
  then have "j \<noteq> - 1" by (metis word_less_nat_alt word_not_simps(3))
  then have s: "unat (j + 1) = Suc (unat j)" by (rule unat_Suc_u64)
  have "P (j + 1)"
  proof (rule Suc.hyps(1))
    show "k = unat i - unat (j + 1)" using Suc.hyps(2) s by simp
    show "height < j + 1" using Suc.prems(1) s unfolding word_less_nat_alt by simp
    show "j + 1 \<le> i" using lt s unfolding word_le_nat_alt by simp
  qed
  moreover have "j < i" using lt unfolding word_less_nat_alt .
  ultimately show ?case using Suc.prems(1) assms(2) by blast
qed

lemma justified_run:
  "store_inv c n \<Longrightarrow> run_task c order n t = Ret (n', ts, out) \<Longrightarrow> justified c K n e \<Longrightarrow> justified c K n' e"
  using certified_run unfolding justified_def by blast

lemma committed_inv_commit:
  assumes inv: "committed_in c K n" and store: "store_inv c n" and cert: "certified c n bqc"
    and within: "blocks_within K n M" "bq_Block bqc \<in> K"
    and commit: "CommitAncestorByBlockQC n bqc = Ret n'"
    and h: "fmlookup (chain_blocks (chain n')) h = Some e"
  shows "h = 0 \<and> e = \<lparr>bq_Block = genesis, QC = Some []\<rparr> \<or> justified c K n e"
  using commit
proof (cases rule: CommitAncestor_Ret)
  case 1
  with inv h show ?thesis by (auto simp: committed_in_def)
next
  case (2 b m blocks)
  let ?p = "Height (bq_Block bqc) - 1" and ?ch = "chain_height (chain n)"
  let ?cand = "cc_block (block_store n) (candidateChain n)"
  note loop = commit_loop_Ret [OF 2(3)]
  have e: "fmlookup blocks h = Some e" using h 2(4) by simp
  have cb: "?cand ?p (hex_EncodeToString (contents (PreviousHash (bq_Block bqc)))) = Some b"
    using 2(1,2) by (simp add: cc_block_def)
  note filed = cc_block_filed [OF store] and K = blocks_within_cand [OF within(1)]
  let ?b = "bq_Block bqc"
  define P where "P j \<longleftrightarrow> (\<exists>d. fmlookup blocks j = Some \<lparr>bq_Block = d, QC = QC bqc\<rparr> \<and>
      Height d = j \<and> ancestor c K ?b d)" for j
  show ?thesis
  proof (cases "?ch < h \<and> h \<le> ?p")
    case False
    with loop e inv show ?thesis by (auto simp: committed_in_def)
  next
    case True
    have "P ?p"
    proof -
      have "?ch < ?p" using True by auto
      from loop [THEN conjunct2, rule_format, of ?p] this
      obtain d where d: "fmlookup blocks ?p = Some \<lparr>bq_Block = d, QC = QC bqc\<rparr>" "b = d"
        by auto
      have "ancestor c K ?b b"
        by (rule ancestor_parent [OF ancestor_self])
          (use filed [OF cb] K [OF cb] in \<open>simp_all add: parent_of_def\<close>)
      with d filed(1) [OF cb] show ?thesis by (simp add: P_def)
    qed
    moreover have "P j" if lt: "?ch < j" "j < ?p" and IH: "P (j + 1)" for j
    proof -
      from loop [THEN conjunct2, rule_format, OF conjI, OF lt(1) less_imp_le [OF lt(2)]] less_imp_neq [OF lt(2)]
      obtain d a where d: "fmlookup blocks j = Some \<lparr>bq_Block = d, QC = QC bqc\<rparr>"
        and a: "fmlookup blocks (j + 1) = Some \<lparr>bq_Block = a, QC = QC bqc\<rparr>"
          "?cand j (hex_EncodeToString (contents (PreviousHash a))) = Some d"
        by (auto split: if_splits)
      from IH a(1) have a': "Height a = j + 1" "ancestor c K ?b a" by (auto simp: P_def)
      have "parent_of c K a d" using filed [OF a(2)] K [OF a(2)] a'(1) by (simp add: parent_of_def)
      moreover have "Height d \<noteq> Height ?b" using filed(1) [OF a(2)] u64_below_pred [OF lt(2)] lt(1) by auto
      ultimately have "ancestor c K ?b d" by (rule ancestor_parent [OF a'(2)])
      with d filed(1) [OF a(2)] show ?thesis by (simp add: P_def)
    qed
    ultimately have "P h" using True by (blast intro: u64_induct_down)
    moreover have "h \<le> Height ?b \<or> Height ?b = 0" using True u64_le_pred by blast
    ultimately show ?thesis using e cert within(2) by (auto simp: P_def justified_def)
  qed
qed

lemma committed_inv_run:
  assumes inv: "committed_in c K n" and quorum: "quorum_inv c n (add_mset t rest)"
    and store: "store_inv c n" and within: "blocks_within K n (add_mset t rest)"
    and run: "run_task c order n t = Ret (n', ts, out)"
  shows "committed_in c K n'"
proof -
  have old: "h = 0 \<and> e = \<lparr>bq_Block = genesis, QC = Some []\<rparr> \<or> justified c K n e"
    if "fmlookup (chain_blocks (chain n)) h = Some e" for h e
    using inv that unfolding committed_in_def by blast
  have "h = 0 \<and> e = \<lparr>bq_Block = genesis, QC = Some []\<rparr> \<or> justified c K n e"
    if e: "fmlookup (chain_blocks (chain n')) h = Some e" for h e
    using run
  proof (cases rule: run_task_Ret)
    case (new_block b n1 r)
    with ensure_pending_frame [OF new_block(3)] have "chain n' = chain n" by auto
    with e show ?thesis by (intro old) simp
  next
    case (vote_msg v)
    with handleVoteMsg_frame have "chain n' = chain n" by fastforce
    with e show ?thesis by (intro old) simp
  next
    case (commit bqc)
    with quorum within have "certified c n bqc" "bq_Block bqc \<in> K"
      by (auto simp: quorum_inv_def blocks_within_def)
    then show ?thesis using committed_inv_commit [OF inv store _ within _ commit(4) e] by simp
  next
    case (extend bqc)
    have "certified c n bqc" "bq_Block bqc \<in> K"
      using quorum within extend(4) unfolding quorum_inv_def blocks_within_def by blast+
    then have "justified c K n bqc" unfolding justified_def using ancestor_self by blast
    with e extend old show ?thesis by (auto split: if_splits)
  qed (use e in \<open>intro old, simp\<close>)+
  with justified_run [OF store run] show ?thesis unfolding committed_in_def by blast
qed

lemma committed_inv_propose:
  assumes inv: "committed_in c K n"
    and turn: "loop_step c n l n' l' ts out"
  shows "committed_in c K n'"
  using inv votes_for_propose(3) [OF turn]
    static_cong_certified(1) [OF static_propose [OF turn] votes_for_propose(1,2) [OF turn]]
  by (simp add: committed_in_def justified_def)

lemma committed_inv_NewNode: "NewNode c conf = Ret n \<Longrightarrow> committed_in c K n"
  by (frule NewNode_Ret(1)) (simp add: committed_in_def)

end
