(* ===== verification/Node_Progress.thy ===== *)
theory Node_Progress
  imports Node_Quorum
begin

text \<open>
  No wake-up is lost. Where a node has what it needs for a next step (a quorum of votes for
  a block it holds, a pending block above the candidate chain, a certified block above the
  committed chain), a goroutine that will take the step is under way. So when no goroutine
  can run, nothing is left to do.
\<close>

definition wake_quorum :: "('ps, 'pp) node \<Rightarrow> task multiset \<Rightarrow> bool" where
  "wake_quorum n M \<longleftrightarrow>
     (\<forall>h s. has_quorum n h s \<longrightarrow> \<not> lookup_bool (qcCreated n) h \<longrightarrow> CheckIfQuorumVotes h s \<in># M)"

definition wake_candidate :: "('ps, 'pp) node \<Rightarrow> task multiset \<Rightarrow> bool" where
  "wake_candidate n M \<longleftrightarrow>
     (let h = cc_height (candidateChain n) + 1 in
      fmlookup (pendingBlocks n) h \<noteq> None \<longrightarrow> fmlookup (cc_blocks (candidateChain n)) h = None \<longrightarrow>
        TryExtendCandidateChain \<in># M \<or> (\<exists>b. TryUpdateCandidateChain b \<in># M \<and> Height b = h))"

definition wake_chain :: "('ps, 'pp) node \<Rightarrow> task multiset \<Rightarrow> bool" where
  "wake_chain n M \<longleftrightarrow>
     (fmlookup (pendingBlocksQC n) (chain_height (chain n) + 1) \<noteq> None \<longrightarrow>
        TryExtendChain \<in># M \<or> (\<exists>bqc. CommitAncestor bqc \<in># M))"

text \<open>The block a goroutine is about to put into the candidate chain is held already.\<close>

definition update_held :: "('ps, 'pp) crypto \<Rightarrow> ('ps, 'pp) node \<Rightarrow> task multiset \<Rightarrow> bool" where
  "update_held c n M \<longleftrightarrow>
     (\<forall>b. TryUpdateCandidateChain b \<in># M \<longrightarrow> pending_block n (Height b) (block_key c b) \<noteq> None)"

definition channel_inv :: "('ps, 'pp) node \<Rightarrow> bool" where
  "channel_inv n \<longleftrightarrow> length (candidateHeightUpdated n) \<le> 1"

definition wake_inv :: "('ps, 'pp) crypto \<Rightarrow> ('ps, 'pp) node \<Rightarrow> task multiset \<Rightarrow> bool" where
  "wake_inv c n M \<longleftrightarrow> wake_quorum n M \<and> wake_candidate n M \<and> wake_chain n M \<and>
     update_held c n M \<and> channel_inv n"

section \<open>A goroutine's run keeps the wake-ups\<close>

lemma new_block_key:
  assumes "ensure_pending n (Height b) = (n1, r)"
    and "n' = n1\<lparr>block_store := (block_store n1)(r := fmupd (block_key c b) b (block_store n1 r))\<rparr>"
  shows "pending_block n' (Height b) (block_key c b) \<noteq> None"
  using assms
  by (auto simp: ensure_pending_def pending_block_def pending_lookup_def split: option.splits)

lemma pending_block_other:
  assumes inv: "store_inv c n" and ens: "ensure_pending n (Height b) = (n1, r)"
    and n': "n' = n1\<lparr>block_store := (block_store n1)(r := fmupd (block_key c b) b (block_store n1 r))\<rparr>"
    and held: "pending_block n' h s \<noteq> None"
  shows "pending_block n h s \<noteq> None \<or> (h = Height b \<and> s = block_key c b)"
proof (cases "fmlookup (pendingBlocks n) (Height b)")
  case None
  with ens have n1: "n1 = n\<lparr>pendingBlocks := fmupd (Height b) (next_map n) (pendingBlocks n),
      block_store := (block_store n)(next_map n := fmempty), next_map := Suc (next_map n)\<rparr>"
    and r: "r = next_map n" by (auto simp: ensure_pending_def)
  have "r' \<noteq> next_map n" if "fmlookup (pendingBlocks n) h = Some r'" for r'
    using inv that by (auto simp: store_inv_def)
  with held n1 r n' show ?thesis
    by (auto simp: pending_block_def pending_lookup_def split: option.splits if_splits)
next
  case (Some r')
  with ens have "n1 = n" "r = r'" by (simp_all add: ensure_pending_def)
  moreover have "h = Height b" if "fmlookup (pendingBlocks n) h = Some r'"
    using inv that Some by (auto simp: store_inv_def)
  ultimately show ?thesis using held n' Some
    by (auto simp: pending_block_def pending_lookup_def split: option.splits if_splits)
qed

lemma pending_block_update:
  assumes inv: "store_inv c n" and r: "fmlookup (cc_blocks (candidateChain n)) (Height b) = Some r"
    and n': "n' = n\<lparr>block_store := (block_store n)(r := fmupd (block_key c b) b (block_store n r))\<rparr>"
    and held: "pending_block n' h s \<noteq> None"
  shows "pending_block n h s \<noteq> None \<or> (h = Height b \<and> s = block_key c b)"
proof -
  have own: "owns n (Height b) r" using inv r by (simp add: store_inv_def)
  have "h = Height b" if "fmlookup (pendingBlocks n) h = Some r"
    using owns_unique [OF inv _ own] that by (simp add: owns_def)
  with held n' show ?thesis
    by (auto simp: pending_block_def pending_lookup_def split: option.splits if_splits)
qed

lemma wake_quorum_same:
  assumes inv: "wake_quorum n (add_mset t rest)" and t: "\<And>h s. t \<noteq> CheckIfQuorumVotes h s"
    and "\<And>h s. has_quorum n' h s \<Longrightarrow> \<not> lookup_bool (qcCreated n') h \<Longrightarrow>
      has_quorum n h s \<and> \<not> lookup_bool (qcCreated n) h \<or> CheckIfQuorumVotes h s \<in># M"
  shows "wake_quorum n' (rest + M)"
  unfolding wake_quorum_def
proof (intro allI impI)
  fix h s assume "has_quorum n' h s" "\<not> lookup_bool (qcCreated n') h"
  with assms(3) consider "has_quorum n h s" "\<not> lookup_bool (qcCreated n) h"
    | "CheckIfQuorumVotes h s \<in># M" by blast
  then show "CheckIfQuorumVotes h s \<in># rest + M"
  proof cases
    case 1
    with inv t [of h s] show ?thesis unfolding wake_quorum_def by fastforce
  qed simp
qed

lemma wake_quorum_run:
  assumes inv: "wake_quorum n (add_mset t rest)" and store: "store_inv c n"
    and held: "update_held c n (add_mset t rest)"
    and run: "run_task c order n t = Ret (n', ts, out)"
  shows "wake_quorum n' (rest + mset ts)"
proof -
  have Q: "quorumNum n' = quorumNum n" using static_run [OF run] by (rule static_D)
  show ?thesis
    using run
  proof (cases rule: run_task_Ret)
    case (new_block b n1 r)
    have qc: "qcCreated n' = qcCreated n" "\<And>h s. votes_for n' h s = votes_for n h s"
      using ensure_pending_frame [OF new_block(3)] new_block(4) by (auto simp: votes_for_def)
    show ?thesis
      by (rule wake_quorum_same [OF inv])
        (use new_block qc Q pending_block_other [OF store new_block(3,4)] in
          \<open>auto simp: has_quorum_def\<close>)
  next
    case (update b r)
    have "pending_block n (Height b) (block_key c b) \<noteq> None"
      using held update(1) by (simp add: update_held_def)
    then have "pending_block n h s \<noteq> None" if "pending_block n' h s \<noteq> None" for h s
      using pending_block_update [OF store update(4,5) that] by auto
    moreover have "qcCreated n' = qcCreated n" "\<And>h s. votes_for n' h s = votes_for n h s"
      using update by (simp_all add: votes_for_def)
    ultimately show ?thesis
      by (intro wake_quorum_same [OF inv]) (use update Q in \<open>auto simp: has_quorum_def\<close>)
  next
    case (vote_msg v)
    obtain ps where n': "n' = n\<lparr>partialSigs := ps\<rparr>" using handleVoteMsg_frame vote_msg(3) by blast
    have ts: "ts = [CheckIfQuorumVotes (BlockHeight (v_PlainVote v))
        (hex_EncodeToString (contents (BlockHash (v_PlainVote v))))]"
      using vote_msg(3) by (simp add: handleVoteMsg_def Let_def)
    show ?thesis
      by (rule wake_quorum_same [OF inv])
        (use vote_msg ts n' handleVoteMsg_votes [OF vote_msg(3)] in
          \<open>auto simp: has_quorum_def pending_block_def pending_lookup_def split: if_splits\<close>)
  next
    case (check_yes h s)
    have "CheckIfQuorumVotes h' s' \<in># rest"
      if "has_quorum n' h' s'" "\<not> lookup_bool (qcCreated n') h'" for h' s'
    proof -
      from that check_yes(6) have "h' \<noteq> h" "\<not> lookup_bool (qcCreated n) h'"
        by (auto split: if_splits)
      moreover from that check_yes(6) have "has_quorum n h' s'"
        by (simp add: has_quorum_def votes_for_def pending_block_def pending_lookup_def)
      ultimately have "has_quorum n h' s'" "\<not> lookup_bool (qcCreated n) h'" "h' \<noteq> h" by simp_all
      with inv check_yes(1) show ?thesis by (fastforce simp: wake_quorum_def)
    qed
    then show ?thesis by (simp add: wake_quorum_def)
  next
    case (check_no h s)
    have "\<not> (has_quorum n h s \<and> \<not> lookup_bool (qcCreated n) h)"
      using check_no(5) by (auto simp: has_quorum_def)
    with inv check_no show ?thesis by (fastforce simp: wake_quorum_def)
  next
    case (commit bqc)
    then obtain ch where "n' = n\<lparr>chain := ch\<rparr>" using commit_frame by blast
    with commit show ?thesis
      by (intro wake_quorum_same [OF inv])
        (auto simp: has_quorum_def votes_for_def pending_block_def pending_lookup_def)
  qed (intro wake_quorum_same [OF inv];
      simp add: has_quorum_def votes_for_def pending_block_def pending_lookup_def)+
qed

lemma wake_candidate_same:
  assumes inv: "wake_candidate n (add_mset t rest)"
    and t: "t \<noteq> TryExtendCandidateChain" "\<And>b. t \<noteq> TryUpdateCandidateChain b"
    and n': "candidateChain n' = candidateChain n" "pendingBlocks n' = pendingBlocks n"
  shows "wake_candidate n' (rest + M)"
proof -
  have "TryUpdateCandidateChain b \<in># add_mset t rest \<longleftrightarrow> TryUpdateCandidateChain b \<in># rest" for b
    using t(2) [of b] by auto
  then show ?thesis using inv t(1) n' by (auto simp: wake_candidate_def Let_def)
qed

lemma wake_candidate_run:
  assumes inv: "wake_candidate n (add_mset t rest)"
    and run: "run_task c order n t = Ret (n', ts, out)"
  shows "wake_candidate n' (rest + mset ts)"
  using run
proof (cases rule: run_task_Ret)
  case (new_block b n1 r)
  let ?h = "cc_height (candidateChain n) + 1"
  have same: "candidateChain n' = candidateChain n"
    using ensure_pending_frame [OF new_block(3)] new_block(4) by auto
  show ?thesis
  proof (cases "Height b = ?h")
    case True
    with new_block(5) same show ?thesis by (auto simp: wake_candidate_def Let_def)
  next
    case False
    then have "fmlookup (pendingBlocks n') ?h = fmlookup (pendingBlocks n) ?h"
      using new_block(3,4) by (auto simp: ensure_pending_def split: option.splits)
    with inv new_block(1) same show ?thesis by (auto simp: wake_candidate_def Let_def)
  qed
next
  case (update b r)
  have "wake_candidate n rest"
    using inv update(1,4) by (auto simp: wake_candidate_def Let_def)
  with update show ?thesis by (simp add: wake_candidate_def Let_def)
next
  case (vote_msg v)
  obtain ps where n': "n' = n\<lparr>partialSigs := ps\<rparr>" using handleVoteMsg_frame vote_msg(3) by blast
  then show ?thesis using vote_msg by (intro wake_candidate_same [OF inv]) simp_all
next
  case (commit bqc)
  then obtain ch where "n' = n\<lparr>chain := ch\<rparr>" using commit_frame by blast
  with commit show ?thesis by (intro wake_candidate_same [OF inv]) simp_all
qed ((intro wake_candidate_same [OF inv]; simp; fail) | simp add: wake_candidate_def Let_def)+

lemma wake_chain_same:
  assumes inv: "wake_chain n (add_mset t rest)"
    and t: "t \<noteq> TryExtendChain" "\<And>bqc. t \<noteq> CommitAncestor bqc"
    and n': "chain n' = chain n" "pendingBlocksQC n' = pendingBlocksQC n"
  shows "wake_chain n' (rest + M)"
proof -
  have "CommitAncestor b \<in># add_mset t rest \<longleftrightarrow> CommitAncestor b \<in># rest" for b
    using t(2) [of b] by auto
  then show ?thesis using inv t(1) n' by (auto simp: wake_chain_def)
qed

lemma wake_chain_run:
  assumes inv: "wake_chain n (add_mset t rest)"
    and run: "run_task c order n t = Ret (n', ts, out)"
  shows "wake_chain n' (rest + mset ts)"
  using run
proof (cases rule: run_task_Ret)
  case (new_block b n1 r)
  have "chain n' = chain n" "pendingBlocksQC n' = pendingBlocksQC n"
    using ensure_pending_frame [OF new_block(3)] new_block(4) by auto
  then show ?thesis using new_block by (intro wake_chain_same [OF inv]) simp_all
next
  case (vote_msg v)
  obtain ps where n': "n' = n\<lparr>partialSigs := ps\<rparr>" using handleVoteMsg_frame vote_msg(3) by blast
  then show ?thesis using vote_msg by (intro wake_chain_same [OF inv]) simp_all
next
  case (qc_new bqc)
  then show ?thesis by (auto simp: wake_chain_def)
qed ((intro wake_chain_same [OF inv]; simp; fail) | simp add: wake_chain_def)+

lemma update_held_run:
  assumes inv: "update_held c n (add_mset t rest)" and store: "store_inv c n"
    and run: "run_task c order n t = Ret (n', ts, out)"
  shows "update_held c n' (rest + mset ts)"
  unfolding update_held_def
proof (intro allI impI)
  fix b assume b: "TryUpdateCandidateChain b \<in># rest + mset ts"
  show "pending_block n' (Height b) (block_key c b) \<noteq> None"
  proof (cases "TryUpdateCandidateChain b \<in># rest")
    case True
    with inv have "pending_block n (Height b) (block_key c b) \<noteq> None"
      by (simp add: update_held_def)
    then show ?thesis by (rule pending_block_run [OF store run])
  next
    case False
    with b have "TryUpdateCandidateChain b \<in> set ts" by simp
    with run show ?thesis
    proof (cases rule: run_task_Ret)
      case (new_block b' n1 r)
      with \<open>TryUpdateCandidateChain b \<in> set ts\<close> have "b' = b" by simp
      with new_block_key new_block(3,4) show ?thesis by blast
    qed (auto simp: handleVoteMsg_def Let_def)
  qed
qed

lemma channel_inv_run:
  assumes inv: "channel_inv n" and en: "enabled n t"
    and run: "run_task c order n t = Ret (n', ts, out)"
  shows "channel_inv n'"
  using run
proof (cases rule: run_task_Ret)
  case (new_block b n1 r)
  with ensure_pending_frame [OF new_block(3)] inv show ?thesis by (auto simp: channel_inv_def)
next
  case (vote_msg v)
  with handleVoteMsg_frame inv show ?thesis by (fastforce simp: channel_inv_def)
next
  case (commit bqc)
  then obtain ch where "n' = n\<lparr>chain := ch\<rparr>" using commit_frame by blast
  with inv show ?thesis by (simp add: channel_inv_def)
next
  case (send h)
  with en show ?thesis by (simp add: channel_inv_def)
qed (use inv in \<open>simp_all add: channel_inv_def\<close>)

lemma wake_inv_run:
  assumes inv: "wake_inv c n (add_mset t rest)" and store: "store_inv c n" and en: "enabled n t"
    and run: "run_task c order n t = Ret (n', ts, out)"
  shows "wake_inv c n' (rest + mset ts)"
proof -
  have wake: "wake_quorum n (add_mset t rest)" "wake_candidate n (add_mset t rest)"
    "wake_chain n (add_mset t rest)" "update_held c n (add_mset t rest)" "channel_inv n"
    using inv by (simp_all add: wake_inv_def)
  show ?thesis
    unfolding wake_inv_def
    using wake_quorum_run [OF wake(1) store wake(4) run] wake_candidate_run [OF wake(2) run]
      wake_chain_run [OF wake(3) run] update_held_run [OF wake(4) store run]
      channel_inv_run [OF wake(5) en run] by simp
qed

section \<open>The other steps of the process\<close>

lemma wake_inv_receive:
  assumes inv: "wake_inv c n M" and turn: "HandleMsgsLoop_turn c n m sig = Ret ts"
  shows "wake_inv c n (M + mset ts)"
  using turn
proof (cases rule: HandleMsgsLoop_turn_Ret)
  case 2
  with inv show ?thesis
    by (cases m) (auto simp: wake_inv_def wake_quorum_def wake_candidate_def wake_chain_def
        update_held_def Let_def)
qed (use inv in simp)

lemma wake_inv_propose:
  assumes inv: "wake_inv c n M" and turn: "loop_step c n l n' l' ts out"
  shows "wake_inv c n' (M + mset ts)"
proof -
  note eq = votes_for_propose [OF turn] static_D(2) [OF static_propose [OF turn]]
  have ts: "set ts \<subseteq> {SendHeight 0}"
    and chan: "length (candidateHeightUpdated n') \<le> length (candidateHeightUpdated n)"
    using turn by (auto elim!: loop_step_frame)
  have no: "t \<notin> set ts" if "t \<noteq> SendHeight 0" for t using ts that by auto
  show ?thesis
    using inv chan
    by (simp add: wake_inv_def wake_quorum_def wake_candidate_def wake_chain_def update_held_def
        channel_inv_def has_quorum_def Let_def eq no)
qed

lemma wake_inv_NewNode:
  assumes new: "NewNode c conf = Ret n"
  shows "wake_inv c n {#}"
  using NewNode_Ret [OF new]
  by (simp add: wake_inv_def wake_quorum_def wake_candidate_def wake_chain_def update_held_def
      channel_inv_def has_quorum_def pending_block_def pending_lookup_def)

section \<open>The invariant of a node\<close>

definition node_inv :: "('ps, 'pp) crypto \<Rightarrow> ('ps, 'pp) proc \<Rightarrow> bool" where
  "node_inv c p \<longleftrightarrow>
     store_inv c (p_node p) \<and> chain_inv (p_node p) \<and> qc_inv (p_node p) (p_tasks p) \<and>
     votes_inv (p_node p) (p_tasks p) \<and> quorum_inv c (p_node p) (p_tasks p) \<and>
     committed_inv c (p_node p) \<and> wake_inv c (p_node p) (p_tasks p)"

lemma node_inv_init: "proc_init c conf p \<Longrightarrow> node_inv c p"
  unfolding proc_init_def node_inv_def
  using store_inv_NewNode chain_inv_NewNode qc_inv_NewNode votes_inv_NewNode
    quorum_inv_NewNode committed_inv_NewNode wake_inv_NewNode by fastforce

lemma node_inv_receive:
  "node_inv c p \<Longrightarrow> HandleMsgsLoop_turn c (p_node p) m sig = Ret ts \<Longrightarrow>
   node_inv c (p\<lparr>p_tasks := p_tasks p + mset ts\<rparr>)"
  by (simp add: node_inv_def qc_inv_receive votes_inv_receive quorum_inv_receive wake_inv_receive)

lemma node_inv_run:
  assumes inv: "node_inv c p" and t: "p_tasks p = add_mset t rest" and en: "enabled (p_node p) t"
    and run: "run_task c order (p_node p) t = Ret (n', ts, out)"
  shows "node_inv c (p\<lparr>p_node := n', p_tasks := rest + mset ts\<rparr>)"
proof -
  have store: "store_inv c (p_node p)" using inv by (simp add: node_inv_def)
  show ?thesis
    using inv t store_inv_run [OF store run] chain_inv_run [OF _ store run]
      committed_inv_run [of c UNIV "p_node p" t rest, OF _ _ store blocks_within_UNIV run] qc_inv_run [OF _ store run] votes_inv_run [OF _ run] quorum_inv_run [OF _ store run]
      wake_inv_run [OF _ store en run]
    by (simp add: node_inv_def)
qed

lemma node_inv_propose:
  assumes inv: "node_inv c p" and turn: "loop_step c (p_node p) l n' l' ts out"
  shows "node_inv c (p\<lparr>p_node := n', p_loop := l', p_tasks := p_tasks p + mset ts\<rparr>)"
  using inv store_inv_propose [OF _ turn] chain_inv_propose [OF _ turn] qc_inv_propose [OF _ turn]
    votes_inv_propose [OF _ turn] quorum_inv_propose [OF _ turn] committed_inv_propose [OF _ turn]
    wake_inv_propose [OF _ turn]
  by (simp add: node_inv_def)

lemma requestPool_reads [simp]:
  "votes_for (n\<lparr>requestPool := rp\<rparr>) h s = votes_for n h s"
  "pending_block (n\<lparr>requestPool := rp\<rparr>) h s = pending_block n h s"
  "static (n\<lparr>requestPool := rp\<rparr>) = static n"
  by (simp_all add: votes_for_def pending_block_def pending_lookup_def static_def)

lemma requestPool_quorum [simp]:
  "has_quorum (n\<lparr>requestPool := rp\<rparr>) h s = has_quorum n h s"
  "certified c (n\<lparr>requestPool := rp\<rparr>) b = certified c n b"
  by (simp_all add: has_quorum_def certified_def)

lemma requestPool_inv [simp]:
  "store_inv c (n\<lparr>requestPool := rp\<rparr>) = store_inv c n"
  "chain_inv (n\<lparr>requestPool := rp\<rparr>) = chain_inv n"
  "qc_inv (n\<lparr>requestPool := rp\<rparr>) M = qc_inv n M"
  "votes_inv (n\<lparr>requestPool := rp\<rparr>) M = votes_inv n M"
  "quorum_inv c (n\<lparr>requestPool := rp\<rparr>) M = quorum_inv c n M"
  "committed_in c K (n\<lparr>requestPool := rp\<rparr>) = committed_in c K n"
  "wake_inv c (n\<lparr>requestPool := rp\<rparr>) M = wake_inv c n M"
  by (simp_all add: store_inv_def owns_def chain_inv_def qc_inv_def qc_filed_def votes_inv_def
      quorum_inv_def committed_in_def justified_def wake_inv_def wake_quorum_def
      wake_candidate_def wake_chain_def update_held_def channel_inv_def)

lemma node_inv_accept:
  "node_inv c p \<Longrightarrow> node_inv c (p\<lparr>p_node := (p_node p)\<lparr>requestPool := rp\<rparr>\<rparr>)"
  by (simp add: node_inv_def)

lemma node_inv_crash: "node_inv c p \<Longrightarrow> node_inv c (p\<lparr>p_crashed := b\<rparr>)"
  by (simp add: node_inv_def)

lemma node_inv_step: "node_inv c p \<Longrightarrow> proc_step c p ev out q \<Longrightarrow> node_inv c q"
  by (erule proc_stepE)
    (simp_all add: node_inv_receive node_inv_run node_inv_propose node_inv_accept node_inv_crash)

interpretation running: inductive_invariant "proc_init c conf" "proc_next c" "node_inv c" for c conf
  by unfold_locales (auto simp: proc_next_def intro: node_inv_init node_inv_step)

end
