(* ===== verification/Node_Exec.thy ===== *)
theory Node_Exec
  imports Node_Progress
begin

text \<open>
  Runs of a node as sequences of steps with what they broadcast, and an executable run
  that follows a given schedule, used to reach concrete states.
\<close>

section \<open>Runs\<close>

inductive proc_run ::
  "('ps, 'pp) crypto \<Rightarrow> ('ps, 'pp) proc \<Rightarrow> event list \<Rightarrow> message list \<Rightarrow> ('ps, 'pp) proc \<Rightarrow> bool"
  for c :: "('ps, 'pp) crypto" where
  run_nil: "proc_run c p [] [] p"
| run_snoc: "proc_run c p evs out q \<Longrightarrow> proc_step c q ev out' r \<Longrightarrow>
    proc_run c p (evs @ [ev]) (out @ out') r"

lemma proc_run_reachable:
  "proc_run c p evs out q \<Longrightarrow> reachable (proc_init c conf) (proc_next c) p \<Longrightarrow>
   reachable (proc_init c conf) (proc_next c) q"
proof (induction rule: proc_run.induct)
  case (run_snoc p evs out q ev out' r)
  then have "proc_next c q r" by (auto simp: proc_next_def)
  with run_snoc show ?case by (blast intro: reachable.intros(2))
qed

lemma proc_run_trans:
  "proc_run c q evs' out' r \<Longrightarrow> proc_run c p evs out q \<Longrightarrow> proc_run c p (evs @ evs') (out @ out') r"
proof (induction rule: proc_run.induct)
  case (run_snoc q evs' out' s ev out'' r)
  then show ?case using proc_run.run_snoc by (metis append_assoc)
qed simp

section \<open>Executing a schedule\<close>

text \<open>An event with the choices that the code leaves to the runtime.\<close>

datatype choice =
    DoReceive message bytes
  | DoRun task "(string \<times> gobytes) list"
  | DoAccept RequestWrappedByServer

fun event_of :: "choice \<Rightarrow> event" where
  "event_of (DoReceive m sig) = Receive m sig"
| "event_of (DoRun t order) = Run t"
| "event_of (DoAccept r) = Accept r"

type_synonym ('ps, 'pp) live = "('ps, 'pp) node \<times> task list"

text \<open>One step of a process that has not panicked and whose proposing loop has not begun; \<open>None\<close> where the step is not possible
  or panics.\<close>

fun exec_step ::
  "('ps, 'pp) crypto \<Rightarrow> choice \<Rightarrow> ('ps, 'pp) live \<Rightarrow> (('ps, 'pp) live \<times> message list) option" where
  "exec_step c (DoReceive m sig) (n, ts) =
     (case HandleMsgsLoop_turn c n m sig of Panic e \<Rightarrow> None | Ret ts' \<Rightarrow> Some ((n, ts @ ts'), []))"
| "exec_step c (DoRun t order) (n, ts) =
     (if t \<in> set ts \<and> enabled n t \<and> order_ok n t order then
        (case run_task c order n t of
           Panic e \<Rightarrow> None
         | Ret (n', ts', out) \<Rightarrow> Some ((n', remove1 t ts @ ts'), out))
      else None)"
| "exec_step c (DoAccept r) (n, ts) =
     Some ((n\<lparr>requestPool := requestPool n @ [r]\<rparr>, ts), [])"

fun exec_run ::
  "('ps, 'pp) crypto \<Rightarrow> choice list \<Rightarrow> ('ps, 'pp) live \<Rightarrow> message list \<Rightarrow>
   (('ps, 'pp) live \<times> message list) option" where
  "exec_run c [] l sent = Some (l, sent)"
| "exec_run c (ch # chs) l sent =
     (case exec_step c ch l of
        None \<Rightarrow> None
      | Some (l', out) \<Rightarrow> exec_run c chs l' (sent @ out))"

definition live_proc :: "('ps, 'pp) live \<Rightarrow> ('ps, 'pp) proc" where
  "live_proc l = \<lparr>p_node = fst l, p_loop = new_timeOut AtTop, p_tasks = mset (snd l), p_crashed = False\<rparr>"

lemma exec_step_sound:
  assumes "exec_step c ch l = Some (l', out)"
  shows "proc_step c (live_proc l) (event_of ch) out (live_proc l')"
proof (cases "(c, ch, l)" rule: exec_step.cases)
  case (1 c' m sig n ts)
  then obtain ts' where turn: "HandleMsgsLoop_turn c n m sig = Ret ts'"
    and l': "l' = (n, ts @ ts')" "out = []"
    using assms by (auto split: outcome.splits)
  have "proc_step c (live_proc l) (Receive m sig) []
      ((live_proc l)\<lparr>p_tasks := p_tasks (live_proc l) + mset ts'\<rparr>)"
    by (rule proc_step.receive) (use 1 turn in \<open>simp_all add: live_proc_def\<close>)
  with 1 l' show ?thesis by (simp add: live_proc_def)
next
  case (2 c' t order n ts)
  then obtain n' ts' where t: "t \<in> set ts" "enabled n t" "order_ok n t order"
    and run: "run_task c order n t = Ret (n', ts', out)" and l': "l' = (n', remove1 t ts @ ts')"
    using assms by (auto split: outcome.splits if_splits)
  have "proc_step c (live_proc l) (Run t) out
      ((live_proc l)\<lparr>p_node := n', p_tasks := mset (remove1 t ts) + mset ts'\<rparr>)"
    by (rule proc_step.run) (use 2 t run in \<open>simp_all add: live_proc_def\<close>)
  with 2 l' show ?thesis by (simp add: live_proc_def)
next
  case (3 c' r n ts)
  have "proc_step c (live_proc l) (Accept r) []
      ((live_proc l)\<lparr>p_node := (p_node (live_proc l))
         \<lparr>requestPool := requestPool (p_node (live_proc l)) @ [r]\<rparr>\<rparr>)"
    by (rule proc_step.accept) (simp add: live_proc_def)
  with 3 assms show ?thesis by (auto simp: live_proc_def)
qed

lemma exec_run_sound:
  "exec_run c chs l sent = Some (l', out) \<Longrightarrow>
   \<exists>out'. out = sent @ out' \<and> proc_run c (live_proc l) (map event_of chs) out' (live_proc l')"
proof (induction c chs l sent arbitrary: l' out rule: exec_run.induct)
  case (1 c l sent)
  then show ?case by (simp add: run_nil)
next
  case (2 c ch chs l sent)
  then obtain l1 out1 where s: "exec_step c ch l = Some (l1, out1)"
    and r: "exec_run c chs l1 (sent @ out1) = Some (l', out)"
    by (auto split: option.splits)
  have "proc_run c (live_proc l) ([] @ [event_of ch]) ([] @ out1) (live_proc l1)"
    using exec_step_sound [OF s] run_nil run_snoc by blast
  moreover from "2.IH" [OF s refl r] obtain out' where "out = sent @ out1 @ out'"
    "proc_run c (live_proc l1) (map event_of chs) out' (live_proc l')" by auto
  ultimately show ?case using proc_run_trans by fastforce
qed

definition start :: "('ps, 'pp) crypto \<Rightarrow> ('ps, 'pp) Config \<Rightarrow> ('ps, 'pp) live option" where
  "start c conf = (case NewNode c conf of Panic e \<Rightarrow> None | Ret n \<Rightarrow> Some (n, []))"

lemma start_init: "start c conf = Some l \<Longrightarrow> proc_init c conf (live_proc l)"
  by (auto simp: start_def proc_init_def live_proc_def split: outcome.splits)

definition exec ::
  "('ps, 'pp) crypto \<Rightarrow> ('ps, 'pp) Config \<Rightarrow> choice list \<Rightarrow> (('ps, 'pp) live \<times> message list) option"
where
  "exec c conf chs = Option.bind (start c conf) (\<lambda>l. exec_run c chs l [])"

lemma exec_run_of:
  assumes "exec c conf chs = Some (l, out)"
  shows "\<exists>p. proc_init c conf p \<and> proc_run c p (map event_of chs) out (live_proc l)"
proof -
  from assms obtain l0 where "start c conf = Some l0" "exec_run c chs l0 [] = Some (l, out)"
    by (auto simp: exec_def bind_eq_Some_conv)
  then show ?thesis using start_init [of c conf l0] exec_run_sound [of c chs l0 "[]" l out] by auto
qed

lemma exec_reachable:
  "exec c conf chs = Some (l, out) \<Longrightarrow> reachable (proc_init c conf) (proc_next c) (live_proc l)"
  
  by (drule exec_run_of) (blast intro: proc_run_reachable reachable.intros(1))

section \<open>Code equations\<close>

lemma map_len_code [code]: "map_len (fmap_of_list xs) = length (remdups (map fst xs))"
  by (simp add: map_len_def fcard.rep_eq fset_of_list.rep_eq List.card_set flip: set_map)

end
