(* ===== verification/Demo.thy ===== *)
theory Demo
  imports Node_Exec Quorum
begin

text \<open>
  Concrete clusters and blocks for the runs of the node. The primitives are instantiated by
  simple functions that meet what the code relies on in these runs: the digest of a block
  is the start of its proposer's name, signatures verify, a threshold signature needs its
  threshold of valid partial signatures, every lot wins.
\<close>

named_theorems exec_simps

definition toy :: "(unit, unit) crypto" where
  "toy = \<lparr>sha256 = (\<lambda>m. take 1 (drop 13 m)),
          ed25519_Sign = (\<lambda>k m. k @ m), ed25519_Verify = (\<lambda>k m s. True),
          tbls_Sign = (\<lambda>k m. Inr [1]),
          tbls_Recover = (\<lambda>pk m sigs t n.
            if t \<le> int (length sigs) \<and> list_all (\<lambda>s. s = Some [1]) sigs then Inr [9]
            else Inl (ErrExternal ''tbls'')),
          bls_Verify = (\<lambda>pk m s. None),
          vrf_Prove = (\<lambda>pk sk m. Inr ([7], [0]))\<rparr>"

lemma toy_sel [simp]:
  "ed25519_Verify toy k m s" "tbls_Sign toy u m = Inr [1]"
  "tbls_Recover toy u m sigs t n =
     (if t \<le> int (length sigs) \<and> list_all (\<lambda>s. s = Some [1]) sigs then Inr [9]
      else Inl (ErrExternal ''tbls''))"
  "vrf_Prove toy pk sk m = Inr ([7], [0])"
  by (simp_all add: toy_def)

definition toy_config :: "string list \<Rightarrow> (unit, unit) Config" where
  "toy_config names =
     config_New (hd names) 3 '''' (fmap_of_list (map (\<lambda>x. (x, ''host'')) names))
       (fmap_of_list (map (\<lambda>x. (x, 8000)) names))
       (fmap_of_list (map (\<lambda>x. (x, replicate 32 0)) names)) (replicate 64 0) () () (Fin 1)
       True 8000 9000 0 True"

definition toy_block :: "char \<Rightarrow> u64 \<Rightarrow> bytes \<Rightarrow> Block" where
  "toy_block ch h prev = \<lparr>Proposer = [ch], Height = h, PreviousHash = Some prev, Cmds = Some []\<rparr>"

definition toy_vote :: "string \<Rightarrow> Block \<Rightarrow> VoteWithPartialSig" where
  "toy_vote name b = \<lparr>v_PlainVote = plain_vote toy b, Sender = name, PartialSig = Some [1]\<rparr>"

lemma toy_block_sel [simp]:
  "Proposer (toy_block ch h prev) = [ch]" "Height (toy_block ch h prev) = h"
  "PreviousHash (toy_block ch h prev) = Some prev" "Cmds (toy_block ch h prev) = Some []"
  by (simp_all add: toy_block_def)

lemma toy_block_hash:
  assumes "json_safe (of_char ch)"
  shows "block_hash toy (toy_block ch h prev) = [byte_of_char ch]"
proof -
  have "json_body [ch] = [ch]"
    using assms by (simp add: json_body.simps(2) Let_def json_safe_def)
  then show ?thesis
    by (simp add: block_hash_def toy_def json_bytes_def goval_of_Block_def json_string_def
        json_body.simps(2) json_safe_def Let_def bytes_of_string_def toy_block_def)
qed

lemma genesis_hash: "block_hash toy genesis = [byte_of_char CHR ''C'']"
  by (simp add: block_hash_def toy_def json_bytes_def goval_of_Block_def json_string_def
      json_body.simps(2) json_safe_def Let_def bytes_of_string_def genesis_def)

text \<open>The block with which a chain \<open>a\<close>, \<open>b\<close>, ... of one-letter proposers goes on.\<close>

definition blk :: "char \<Rightarrow> u64 \<Rightarrow> char \<Rightarrow> Block" where
  "blk ch h prev = toy_block ch h [byte_of_char prev]"

lemma blk_sel [simp]:
  "Proposer (blk ch h prev) = [ch]" "Height (blk ch h prev) = h"
  "PreviousHash (blk ch h prev) = Some [byte_of_char prev]"
  by (simp_all add: blk_def)

lemma blk_inject [simp]: "blk ch h p = blk ch' h' p' \<longleftrightarrow> ch = ch' \<and> h = h' \<and> byte_of_char p = byte_of_char p'"
  by (auto simp: blk_def toy_block_def)

lemma toy_vote_sel [simp]:
  "Sender (toy_vote name b) = name" "PartialSig (toy_vote name b) = Some [1]"
  "BlockHeight (v_PlainVote (toy_vote name b)) = Height b"
  "hex_EncodeToString (contents (BlockHash (v_PlainVote (toy_vote name b)))) = block_key toy b"
  by (simp_all add: toy_vote_def plain_vote_eq block_key_def)

lemma toy_vote_fold [simp]:
  "\<lparr>v_PlainVote = plain_vote toy b, Sender = name, PartialSig = Some [1]\<rparr> = toy_vote name b"
  by (simp add: toy_vote_def)

lemma blk_keys:
  "block_hash toy (blk CHR ''a'' h p) = [byte_of_char CHR ''a'']"
  "block_hash toy (blk CHR ''b'' h p) = [byte_of_char CHR ''b'']"
  "block_hash toy (blk CHR ''c'' h p) = [byte_of_char CHR ''c'']"
  "block_hash toy (blk CHR ''d'' h p) = [byte_of_char CHR ''d'']"
  by (simp_all add: blk_def toy_block_hash json_safe_def)

lemma block_keys [simp]:
  "block_key toy (blk CHR ''a'' h p) = ''61''" "block_key toy (blk CHR ''b'' h p) = ''62''"
  "block_key toy (blk CHR ''c'' h p) = ''63''" "block_key toy (blk CHR ''d'' h p) = ''64''"
  "block_key toy genesis = ''43''"
  by (simp_all add: block_key_def blk_keys genesis_hash byte_of_char_def hex_digit_def)

lemma genesis_height [simp]: "Height genesis = 0"
  by (simp add: genesis_def)

lemma HashRatio_zero [simp]: "HashRatio [0] = Fin 0"
proof -
  have "to_float64 (of_int 0) = Fin (of_int 0)" by (rule to_float64_int) simp_all
  then show ?thesis by (simp add: HashRatio_def int_SetBytes_def Let_def)
qed

lemma quorum_of_small [exec_simps]: "quorum_of (Suc 0) = 1" "quorum_of (Suc (Suc (Suc (Suc 0)))) = 3"
  by (simp_all add: quorum_of_thirds)

lemmas [exec_simps] =
  exec_def start_def NewNode_def NewSortitioner_def toy_config_def config_New_def
  HandleMsgsLoop_turn_def verifySigED25519_def VerifySignEd25519_def Let_def
  handleNewBlockMsg_def handleNewBlock_def ensure_pending_def tryUpdateCandidateChain_def
  tryExtendCandidateChain_def handleVoteMsg_def checkIfQuorumVotes_def votes_for_def
  pending_block_def pending_lookup_def buildBlockWithQC_def createIntactSig_def
  AssembleIntactTSPartial_def handleNewBlockQC_def CommitAncestorByBlockQC_def cc_lookup_def
  cc_block_def commit_loop.simps tryExtendChain_def map_order_def broadcastVote_def
  signPlainVote_def SignTSPartial_def castVote_eq byte_of_char_def hex_digit_def

section \<open>Schedules\<close>

text \<open>A proposal arrives and is filed; a vote arrives and is counted; the certificate is
  built and applied; the candidate chain grows by one height.\<close>

definition file_block :: "Block \<Rightarrow> choice list" where
  "file_block b = [DoReceive (MsgBlock b) [], DoRun (HandleNewBlockMsg b) [],
     DoRun (HandleNewBlock b) [], DoRun (TryUpdateCandidateChain b) []]"

definition grow :: "choice list" where
  "grow = [DoRun TryExtendCandidateChain []]"

definition count_vote :: "string \<Rightarrow> Block \<Rightarrow> choice list" where
  "count_vote name b =
     [DoReceive (MsgVote (toy_vote name b)) [], DoRun (HandleVoteMsg (toy_vote name b)) [],
      DoRun (CheckIfQuorumVotes (Height b) (block_key toy b)) []]"

definition certify :: "Block \<Rightarrow> string list \<Rightarrow> choice list" where
  "certify b voters =
     [DoRun (BuildBlockWithQC (Height b) (block_key toy b)) (map (\<lambda>x. (x, Some [1])) voters),
      DoRun (HandleNewBlockQC \<lparr>bq_Block = b, QC = Some [9]\<rparr>) []]"

definition apply_qc :: "Block \<Rightarrow> choice list" where
  "apply_qc b = [DoRun (CommitAncestor \<lparr>bq_Block = b, QC = Some [9]\<rparr>) [], DoRun TryExtendChain []]"

lemmas [exec_simps] = file_block_def grow_def count_vote_def certify_def apply_qc_def

text \<open>A cluster of one: its only member commits block \<open>a\<close>, whose vote it has cast itself.\<close>

abbreviation one :: "(unit, unit) Config" where "one \<equiv> toy_config [''a'']"

abbreviation blk_a :: Block where "blk_a \<equiv> blk CHR ''a'' 1 CHR ''C''"

definition commit_a :: "choice list" where
  "commit_a = file_block blk_a @ grow @ [DoRun (BroadcastVote blk_a) [],
     DoRun (CastVote blk_a (toy_vote ''a'' blk_a)) []] @ count_vote ''a'' blk_a @
     certify blk_a [''a''] @ apply_qc blk_a"

lemma commit_a_exec:
  "\<exists>l. exec toy one commit_a = Some (l, [MsgVote (toy_vote ''a'' blk_a)]) \<and>
     chain_height (chain (fst l)) = 1 \<and>
     fmlookup (chain_blocks (chain (fst l))) 1 = Some \<lparr>bq_Block = blk_a, QC = Some [9]\<rparr> \<and>
     candidateHeightUpdated (fst l) = [0] \<and> select_ok (fst l) 0 [(''61'', blk_a)] \<and>
     node_canProposeBlock (fst l) \<and> requestPool (fst l) = [] \<and>
     propose_select 0 [(''61'', blk_a)] (fst l) = Ret blk_a \<and>
     mset (snd l) = {#CheckIfQuorumVotes 1 ''61'', TryExtendCandidateChain, SendHeight 1, TryExtendChain#}"
  by (simp add: exec_simps commit_a_def select_ok_def propose_select_def selectBlock_def)

end
