(* ===== verification/Config_Properties.thy ===== *)
theory Config_Properties
  imports Config_Gen Demo
begin

text \<open>
  The generator and the loader together: what \<open>config_gen\<close> writes for a node,
  \<open>LoadConfig\<close> reads back as a configuration that agrees with every other node's, and the
  quorum a node computes from it is the threshold the keys were made for. A file of another
  kind is refused with an error, or with a panic when a peer is incomplete.
\<close>

section \<open>What a run of the generator has made\<close>

lemma read_cluster_Ret:
  assumes "read_cluster order (m0, ns0) = Ret (m, ns)"
  shows "ns = ns0 @ map fst order \<and> list_all (\<lambda>(n, a). \<exists>s. a = VString s) order"
  using assms
  by (induction order "(m0, ns0)" arbitrary: m0 ns0 rule: read_cluster.induct)
    (auto split: setting.splits)

lemma read_ports_Ret:
  assumes "read_ports p2p names ports0 = Ret ports" and "name \<in> set names"
  shows "\<exists>i. fmlookup p2p name = Some (VInt i)"
  using assms
  by (induction p2p names ports0 rule: read_ports.induct) (auto split: option.splits setting.splits)

lemma gen_keys_Ret:
  assumes "gen_keys gen names (p0, q0) = Ret (p, q)"
  shows "(\<forall>n. n \<notin> set names \<longrightarrow> fmlookup p n = fmlookup p0 n \<and> fmlookup q n = fmlookup q0 n) \<and>
    (\<forall>n \<in> set names. \<exists>pub priv. gen n = Inr (pub, priv) \<and>
       fmlookup p n = Some (hex_EncodeToString priv) \<and> fmlookup q n = Some (hex_EncodeToString pub))"
  using assms
proof (induction names arbitrary: p0 q0)
  case (Cons name names)
  then obtain pub priv where g: "gen name = Inr (pub, priv)"
    by (cases "gen name") (auto simp: GenED25519Keys_def)
  with Cons.prems have "gen_keys gen names
      (fmupd name (hex_EncodeToString priv) p0, fmupd name (hex_EncodeToString pub) q0) = Ret (p, q)"
    by (simp add: GenED25519Keys_def)
  note IH = Cons.IH [OF this]
  show ?case
  proof (cases "name \<in> set names")
    case True
    with IH show ?thesis by auto
  next
    case False
    with IH g show ?thesis by auto
  qed
qed simp

lemma write_files_Ret:
  assumes "write_files k st shares pubPoly i names = Ret files" and "(f, s) \<in> set files"
  obtains j sb pb where "j < length names" "i + j < length shares" "f = names ! j @ ''.yaml''"
    "EncodeTSPartialKey k (shares ! (i + j)) = Inr sb" "EncodeTSPublicKey k pubPoly = Inr pb"
    "s = st sb pb (names ! j)"
  using assms
proof (induction names arbitrary: i files thesis)
  case (Cons name names)
  from Cons.prems(2) obtain sb pb fs where 1: "i < length shares"
    "EncodeTSPartialKey k (shares ! i) = Inr sb" "EncodeTSPublicKey k pubPoly = Inr pb"
    "write_files k st shares pubPoly (Suc i) names = Ret fs"
    "files = (name @ ''.yaml'', st sb pb name) # fs"
    by (auto simp: bind_outcome_Ret_iff split: if_splits sum.splits)
  show ?case
  proof (cases "(f, s) \<in> set fs")
    case True
    from Cons.IH [OF _ 1(4) True] obtain j sb pb where "j < length names" "Suc i + j < length shares"
      "f = names ! j @ ''.yaml''" "EncodeTSPartialKey k (shares ! (Suc i + j)) = Inr sb"
      "EncodeTSPublicKey k pubPoly = Inr pb" "s = st sb pb (names ! j)" by blast
    then show ?thesis by (intro Cons.prems(1) [of "Suc j"]) simp_all
  next
    case False
    with Cons.prems(3) 1 show ?thesis by (intro Cons.prems(1) [of 0]) simp_all
  qed
qed simp

section \<open>Reading a written file\<close>

text \<open>
  What viper (v1.3.2) documents of a file it has written and of the environment. With
  \<open>AutomaticEnv\<close>, an environment variable that is set and not empty overrides the file; its
  name is the key with the prefix, in upper case, with the replacer applied. Otherwise each
  setting is read back under its key in lower case. Strings, numbers and truth values come
  back as they were. The delimiter of nested keys is the dot: an entry of a
  \<open>map[string]interface{}\<close> is written under the key path its name gives, and one whose name
  has a dot is not found under it, so it is left out of the file; a \<open>map[string]string\<close> is
  written as a whole. Maps with names in lower case come back with these names; the names of
  every map viper returns from a file are in lower case.
\<close>

definition ToLower :: "string \<Rightarrow> string" where
  "ToLower s = map lower s"

definition lower_key :: "string \<Rightarrow> bool" where
  "lower_key s \<longleftrightarrow> ToLower s = s"

definition ToUpper :: "string \<Rightarrow> string" where
  "ToUpper s =
     map (\<lambda>c. let n = of_char c :: nat in if 97 \<le> n \<and> n \<le> 122 then char_of (n - 32) else c) s"

definition env_key :: "viper_setup \<Rightarrow> string \<Rightarrow> string" where
  "env_key su key =
     map (\<lambda>c. case map_of (vs_envKeyReplacer su) c of None \<Rightarrow> c | Some d \<Rightarrow> d)
       (ToUpper (if vs_envPrefix su = [] then key else vs_envPrefix su @ ''_'' @ key))"

text \<open>The value the environment gives to a key.\<close>

definition env_value :: "viper_setup \<Rightarrow> (string \<Rightarrow> string option) \<Rightarrow> string \<Rightarrow> string option" where
  "env_value su env key =
     (if vs_automaticEnv su then
        (case env (env_key su key) of Some x \<Rightarrow> if x = [] then None else Some x | None \<Rightarrow> None)
      else None)"

definition dotless :: "string \<Rightarrow> bool" where
  "dotless s \<longleftrightarrow> CHR ''.'' \<notin> set s"

definition reads_setting ::
  "viper_setup \<Rightarrow> (string \<Rightarrow> string option) \<Rightarrow> viper \<Rightarrow> string \<Rightarrow> setting \<Rightarrow> bool" where
  "reads_setting su env v key x =
     (case env_value su env key of
        Some e \<Rightarrow> v_GetString v key = e
      | None \<Rightarrow>
         (case x of
            VString s \<Rightarrow> v_GetString v key = s
          | VInt i \<Rightarrow> v_GetInt v key = i
          | VBool b \<Rightarrow> v_GetBool v key = b
          | VMap m \<Rightarrow> (\<forall>n. fmlookup m n \<noteq> None \<longrightarrow> lower_key n) \<longrightarrow> v_GetStringMap v key = fmfilter dotless m
          | VStringMap m \<Rightarrow>
              (\<forall>n. fmlookup m n \<noteq> None \<longrightarrow> lower_key n) \<longrightarrow> v_GetStringMap v key = fmmap VString m
          | VOther \<Rightarrow> True))"

definition reads_settings ::
  "viper_setup \<Rightarrow> (string \<Rightarrow> string option) \<Rightarrow> viper \<Rightarrow> settings \<Rightarrow> bool" where
  "reads_settings su env v st \<longleftrightarrow>
     v_ReadInConfig v = None \<and> list_all (\<lambda>(key, x). reads_setting su env v (ToLower key) x) st"

text \<open>No variable of the environment overrides a setting of the file.\<close>

definition no_override :: "viper_setup \<Rightarrow> (string \<Rightarrow> string option) \<Rightarrow> settings \<Rightarrow> bool" where
  "no_override su env st \<longleftrightarrow> list_all (\<lambda>(key, x). env_value su env (ToLower key) = None) st"

definition lower_maps :: "viper \<Rightarrow> bool" where
  "lower_maps v \<longleftrightarrow> (\<forall>key n. fmlookup (v_GetStringMap v key) n \<noteq> None \<longrightarrow> lower_key n)"

lemma keys_lower:
  "ToLower ''name'' = ''name''" "ToLower ''address'' = ''address''"
  "ToLower ''expectation'' = ''expectation''" "ToLower ''peers_p2p_port'' = ''peers_p2p_port''"
  "ToLower ''p2p_listen_port'' = ''p2p_listen_port''" "ToLower ''max_pool'' = ''max_pool''"
  "ToLower ''rpc_listen_port'' = ''rpc_listen_port''" "ToLower ''PrivKeyED'' = ''privkeyed''"
  "ToLower ''cluster_pubkeyed'' = ''cluster_pubkeyed''" "ToLower ''TSShare'' = ''tsshare''"
  "ToLower ''TSPubKey'' = ''tspubkey''" "ToLower ''sortition_enabled'' = ''sortition_enabled''"
  "ToLower ''log_level'' = ''log_level''" "ToLower ''can_propose_block'' = ''can_propose_block''"
  "ToLower ''cluster_ips'' = ''cluster_ips''"
  by code_simp+

lemma reads_node_settings:
  assumes "reads_settings su env v (node_settings tmpl cluster ports privs pubs sb pb name)"
    and "no_override su env (node_settings tmpl cluster ports privs pubs sb pb name)" and "lower_maps tmpl"
    and "\<forall>n. fmlookup pubs n \<noteq> None \<longrightarrow> lower_key n"
  shows "v_ReadInConfig v = None" "v_GetString v ''name'' = name"
    "v_GetInt v ''expectation'' = v_GetInt tmpl ''expectation''"
    "v_GetString v ''privkeyed'' = lookup_str privs name"
    "v_GetString v ''tsshare'' = hex_EncodeToString sb" "v_GetString v ''tspubkey'' = hex_EncodeToString pb"
    "v_GetStringMap v ''peers_p2p_port'' = fmfilter dotless (v_GetStringMap tmpl ''peers_p2p_port'')"
    "v_GetStringMap v ''cluster_ips'' = fmfilter dotless (v_GetStringMap tmpl ''ips'')"
    "v_GetStringMap v ''cluster_pubkeyed'' = fmmap VString pubs"
  using assms
  by (simp_all add: reads_settings_def no_override_def node_settings_def reads_setting_def keys_lower lower_maps_def)

section \<open>The loaded configuration\<close>

lemma LoadConfig_ok:
  assumes "v = read (config_setup pfx nm)" and "v_ReadInConfig v = None" and "v_GetString v ''privkeyed'' = hex_EncodeToString priv"
    and "v_GetString v ''tspubkey'' = hex_EncodeToString pb" and "DecodeTSPublicKey k pb = Inr pubPoly"
    and "v_GetString v ''tsshare'' = hex_EncodeToString sb" and "DecodeTSPartialKey k sb = Inr sh"
    and "list_all (\<lambda>(name, pk). peer_ok (v_GetStringMap v ''peers_p2p_port'') (v_GetStringMap v ''cluster_ips'') name pk) order"
    and "distinct (map fst order)"
  obtains conf where "LoadConfig k read pfx nm order = Ret (Inr conf)" "conf_Name conf = v_GetString v ''name''"
    "conf_PrivateKey conf = priv" "conf_TsPublicKey conf = pubPoly" "conf_TsPrivateKey conf = sh"
    "list_all (\<lambda>(name, pk). peer_loaded (v_GetStringMap v ''peers_p2p_port'') (v_GetStringMap v ''cluster_ips'')
       (conf_PublicKeyMap conf, conf_ClusterPort conf, conf_ClusterAddr conf) name pk) order"
    "fmdom' (conf_PublicKeyMap conf) = fst ` set order" "fmdom' (conf_ClusterAddr conf) = fst ` set order"
    "conf_Probability conf = float64_div (float64_of_int (v_GetInt v ''expectation''))
       (float64_of_int (int (map_len (conf_ClusterAddr conf))))"
proof -
  let ?ports = "v_GetStringMap v ''peers_p2p_port''" and ?ips = "v_GetStringMap v ''cluster_ips''"
  obtain pks prts addrs where l: "load_peers ?ports ?ips order (fmempty, fmempty, fmempty) = Ret (Inr (pks, prts, addrs))"
    "list_all (\<lambda>(name, pk). peer_loaded ?ports ?ips (pks, prts, addrs) name pk) order"
    "\<And>name. name \<notin> fst ` set order \<Longrightarrow> fmlookup pks name = fmlookup fmempty name \<and>
       fmlookup prts name = fmlookup fmempty name \<and> fmlookup addrs name = fmlookup fmempty name"
    by (rule load_peers_ok [OF assms(8,9)]) blast
  have "name \<in> fmdom' pks \<and> name \<in> fmdom' addrs" if m: "name \<in> fst ` set order" for name
  proof -
    from m obtain pk where "(name, pk) \<in> set order" by auto
    with l(2) have "peer_loaded ?ports ?ips (pks, prts, addrs) name pk" by (auto simp: list_all_iff)
    then show ?thesis by (auto simp: peer_loaded_def intro: fmdom'I)
  qed
  moreover have "name \<notin> fmdom' pks \<and> name \<notin> fmdom' addrs" if "name \<notin> fst ` set order" for name
    using l(3) [OF that] by (simp add: fmdom'_notI)
  ultimately have "fmdom' pks = fst ` set order" "fmdom' addrs = fst ` set order" by blast+
  with l(1,2) assms(1-7) that show ?thesis by (simp add: LoadConfig_def Let_def)
qed

text \<open>What the generator has made for the nodes of the template: the private and the public keys
  in hex, and what the loader will find of each.\<close>

definition generated ::
  "(string \<Rightarrow> error + bytes \<times> bytes) \<Rightarrow> (string, setting) fmap \<Rightarrow> (string \<times> setting) list \<Rightarrow>
   (string, string) fmap \<Rightarrow> (string, string) fmap \<Rightarrow> bool" where
  "generated gen ports order privs pubs \<longleftrightarrow>
     (\<forall>n. fmlookup pubs n \<noteq> None \<longleftrightarrow> n \<in> fst ` set order) \<and>
     (\<forall>(n, x) \<in> set order. \<exists>pub priv a p. gen n = Inr (pub, priv) \<and> x = VString a \<and>
        fmlookup ports n = Some (VInt p) \<and> fmlookup privs n = Some (hex_EncodeToString priv) \<and>
        fmlookup pubs n = Some (hex_EncodeToString pub))"

lemma generated_D:
  assumes "generated gen ports order privs pubs" and "(n, x) \<in> set order"
  obtains pub priv a p where "gen n = Inr (pub, priv)" "x = VString a" "fmlookup ports n = Some (VInt p)"
    "fmlookup privs n = Some (hex_EncodeToString priv)" "fmlookup pubs n = Some (hex_EncodeToString pub)"
  using assms unfolding generated_def by fast

lemma config_gen_Ret:
  assumes "config_gen k d secret gen read order port_order key_order = Ret files"
    and "tmpl = read (config_setup '''' ''config_template'')"
    and "map_order (v_GetStringMap tmpl ''ips'') order"
    and "set port_order = fst ` set order" and "set key_order = fst ` set order"
    and "GenTSKeys d secret (numT (int (length order))) (int (length order)) = (shares, pubPoly)"
  obtains cluster ports privs pubs where
    "generated gen (v_GetStringMap tmpl ''peers_p2p_port'') order privs pubs"
    "write_files k (node_settings tmpl cluster ports privs pubs) shares pubPoly 0 (sort (map fst order)) = Ret files"
proof -
  have n: "map_len (v_GetStringMap tmpl ''ips'') = length order" using map_order_length [OF assms(3)] by simp
  from assms(1,2) obtain cluster names where c: "read_cluster order (fmempty, []) = Ret (cluster, names)"
    by (auto simp: config_gen_def Let_def bind_outcome_Ret_iff split: option.splits)
  then have names: "names = map fst order" and strs: "list_all (\<lambda>(n, a). \<exists>s. a = VString s) order"
    using read_cluster_Ret [OF c] by simp_all
  obtain ports privs pubs where
    p: "read_ports (v_GetStringMap tmpl ''peers_p2p_port'') port_order fmempty = Ret ports"
    and g: "gen_keys gen key_order (fmempty, fmempty) = Ret (privs, pubs)"
    and w: "write_files k (node_settings tmpl cluster ports privs pubs) shares pubPoly 0 (sort (map fst order)) = Ret files"
    using assms(1,2,6) c names n
    by (auto simp: config_gen_def Let_def bind_outcome_Ret_iff split: option.splits if_splits)
  have "generated gen (v_GetStringMap tmpl ''peers_p2p_port'') order privs pubs"
    unfolding generated_def
  proof (intro conjI ballI allI)
    fix n show "fmlookup pubs n \<noteq> None \<longleftrightarrow> n \<in> fst ` set order"
      using gen_keys_Ret [OF g] assms(5) by fastforce
  next
    fix nx assume m: "nx \<in> set order"
    obtain n x where nx: "nx = (n, x)" by fastforce
    with m have n: "n \<in> set key_order" "n \<in> set port_order" using assms(4,5) by force+
    from strs m nx obtain a where "x = VString a" by (auto simp: list_all_iff)
    with nx gen_keys_Ret [OF g] n(1) read_ports_Ret [OF p n(2)]
    show "case nx of (n, x) \<Rightarrow> \<exists>pub priv a p. gen n = Inr (pub, priv) \<and> x = VString a \<and>
        fmlookup (v_GetStringMap tmpl ''peers_p2p_port'') n = Some (VInt p) \<and>
        fmlookup privs n = Some (hex_EncodeToString priv) \<and> fmlookup pubs n = Some (hex_EncodeToString pub)"
      by fastforce
  qed
  with w show ?thesis by (rule that [rotated])
qed

lemma generated_peers:
  assumes g: "generated gen ports order privs pubs" and ips: "map_order ips order"
    and pk: "map_order (fmmap VString pubs) pk_order"
  shows "fst ` set pk_order = fst ` set order"
    and "list_all (\<lambda>(n, pk). peer_ok ports ips n pk) pk_order"
proof -
  have mem: "(n, pk) \<in> set pk_order \<longleftrightarrow> (\<exists>s. pk = VString s \<and> fmlookup pubs n = Some s)" for n pk
    using map_order_lookup [OF pk, of n pk] by auto
  have dom: "n \<in> fst ` set xs \<longleftrightarrow> (\<exists>y. (n, y) \<in> set xs)" for n and xs :: "(string \<times> setting) list"
    by force
  have "n \<in> fst ` set pk_order \<longleftrightarrow> n \<in> fst ` set order" for n
  proof -
    have "n \<in> fst ` set pk_order \<longleftrightarrow> fmlookup pubs n \<noteq> None" unfolding dom mem by simp
    also have "\<dots> \<longleftrightarrow> n \<in> fst ` set order" using g unfolding generated_def by blast
    finally show ?thesis .
  qed
  then show names: "fst ` set pk_order = fst ` set order" by (rule set_eqI)
  have "peer_ok ports ips n pk" if m: "(n, pk) \<in> set pk_order" for n pk
  proof -
    have "n \<in> fst ` set order" using m names by force
    then obtain x where x: "(n, x) \<in> set order" by auto
    from g x obtain pub priv a p where "x = VString a" "fmlookup ports n = Some (VInt p)"
      "fmlookup pubs n = Some (hex_EncodeToString pub)" by (rule generated_D)
    with x m map_order_lookup [OF ips, of n x] show ?thesis by (auto simp: peer_ok_def mem)
  qed
  then show "list_all (\<lambda>(n, pk). peer_ok ports ips n pk) pk_order" by (auto simp: list_all_iff)
qed

lemma generated_loaded:
  assumes g: "generated gen ports order privs pubs" and ips: "map_order ips order"
    and pk: "map_order (fmmap VString pubs) pk_order"
    and l: "list_all (\<lambda>(n, pk). peer_loaded ports ips (pks, prts, addrs) n pk) pk_order"
  shows "list_all (\<lambda>(n, x). \<exists>pub priv a p. gen n = Inr (pub, priv) \<and> x = VString a \<and>
    fmlookup ports n = Some (VInt p) \<and> fmlookup privs n = Some (hex_EncodeToString priv) \<and>
    fmlookup pks n = Some pub \<and> fmlookup addrs n = Some a \<and> fmlookup prts n = Some p) order"
proof -
  have "\<exists>pub priv a p. gen n = Inr (pub, priv) \<and> x = VString a \<and>
    fmlookup ports n = Some (VInt p) \<and> fmlookup privs n = Some (hex_EncodeToString priv) \<and>
    fmlookup pks n = Some pub \<and> fmlookup addrs n = Some a \<and> fmlookup prts n = Some p"
    if m: "(n, x) \<in> set order" for n x
  proof -
    from g m obtain pub priv a p where 1: "gen n = Inr (pub, priv)" "x = VString a"
      "fmlookup ports n = Some (VInt p)" "fmlookup privs n = Some (hex_EncodeToString priv)"
      "fmlookup pubs n = Some (hex_EncodeToString pub)" by (rule generated_D)
    have "(n, VString (hex_EncodeToString pub)) \<in> set pk_order"
      using map_order_lookup [OF pk] 1(5) by simp
    with l have "peer_loaded ports ips (pks, prts, addrs) n (VString (hex_EncodeToString pub))"
      by (auto simp: list_all_iff)
    with 1 m map_order_lookup [OF ips, of n x] show ?thesis by (auto simp: peer_loaded_def)
  qed
  then show ?thesis by (auto simp: list_all_iff)
qed

text \<open>For names without dots, the file has what the template has.\<close>

lemma fmfilter_dotless:
  assumes "map_order m order" and "\<forall>n \<in> fst ` set order. dotless n"
  shows "fmfilter dotless m = m"
proof (rule fmap_ext)
  fix n show "fmlookup (fmfilter dotless m) n = fmlookup m n"
  proof (cases "fmlookup m n")
    case (Some x)
    with map_order_lookup [OF assms(1)] assms(2) have "dotless n" by force
    then show ?thesis by simp
  qed simp
qed

lemma generated_dotless:
  assumes "generated gen ports order privs pubs" and "\<forall>n \<in> fst ` set order. dotless n"
  shows "generated gen (fmfilter dotless ports) order privs pubs"
  using assms unfolding generated_def by fastforce

text \<open>What node \<open>i\<close> of the sorted names is to get from the generator.\<close>

definition loaded_as ::
  "(string \<Rightarrow> error + bytes \<times> bytes) \<Rightarrow> viper \<Rightarrow> (string \<times> setting) list \<Rightarrow> 's PriShare list \<Rightarrow> 'pp \<Rightarrow> nat \<Rightarrow>
   ('s PriShare, 'pp) Config \<Rightarrow> bool" where
  "loaded_as gen tmpl order shares pubPoly i conf \<longleftrightarrow>
     conf_Name conf = sort (map fst order) ! i \<and>
     conf_TsPrivateKey conf = shares ! i \<and> conf_TsPublicKey conf = pubPoly \<and>
     (\<exists>pub. gen (conf_Name conf) = Inr (pub, conf_PrivateKey conf)) \<and>
     fmdom' (conf_PublicKeyMap conf) = fst ` set order \<and> fmdom' (conf_ClusterAddr conf) = fst ` set order \<and>
     list_all (\<lambda>(name, addr). \<exists>pub priv a p. gen name = Inr (pub, priv) \<and> addr = VString a \<and>
       fmlookup (v_GetStringMap tmpl ''peers_p2p_port'') name = Some (VInt p) \<and>
       fmlookup (conf_PublicKeyMap conf) name = Some pub \<and>
       fmlookup (conf_ClusterAddr conf) name = Some a \<and> fmlookup (conf_ClusterPort conf) name = Some p) order"

text \<open>C35: What the generator writes and \<open>LoadConfig\<close> reads fit together where no environment
  variable overrides a setting of the file and no node of the template has a dot in its name:
  every file is accepted, for every order in which the maps are iterated, and node \<open>i\<close> of the
  sorted names gets the \<open>i\<close>-th share and the common public polynomial, its own private key,
  and for every node of the template the public key generated for it, its address and its
  port. Where some name has a dot, as in the sample \<open>config.yaml\<close>, \<open>LoadConfig\<close> panics on every
  file the generator writes: viper has dropped that node's port and address.\<close>

theorem generated_files_load:
  assumes "kyber_ok k"
    and "config_gen k d secret gen tread order port_order key_order = Ret files"
    and "tmpl = tread (config_setup '''' ''config_template'')"
    and "map_order (v_GetStringMap tmpl ''ips'') order"
    and "set port_order = fst ` set order" and "set key_order = fst ` set order"
    and "lower_maps tmpl"
    and "GenTSKeys d secret (numT (int (length order))) (int (length order)) = (shares, pubPoly)"
    and "list_all (\<lambda>s. - (2 ^ 63) \<le> share_I s \<and> share_I s < 2 ^ 63) shares"
    and "(f, st) \<in> set files"
    and "reads_settings (config_setup pfx nm) env (read (config_setup pfx nm)) st"
    and "no_override (config_setup pfx nm) env st"
    and "map_order (v_GetStringMap (read (config_setup pfx nm)) ''cluster_pubkeyed'') pk_order"
  shows "if \<forall>n \<in> fst ` set order. dotless n
    then \<exists>conf i. i < length order \<and> f = sort (map fst order) ! i @ ''.yaml'' \<and>
      LoadConfig k read pfx nm pk_order = Ret (Inr conf) \<and>
      loaded_as gen tmpl order shares pubPoly i conf
    else LoadConfig k read pfx nm pk_order = Panic BadTypeAssertion"
proof -
  let ?v = "read (config_setup pfx nm)"
  let ?ports = "fmfilter dotless (v_GetStringMap tmpl ''peers_p2p_port'')"
    and ?ips = "fmfilter dotless (v_GetStringMap tmpl ''ips'')"
  obtain cluster ports privs pubs where
    gen: "generated gen (v_GetStringMap tmpl ''peers_p2p_port'') order privs pubs"
    and files: "write_files k (node_settings tmpl cluster ports privs pubs) shares pubPoly 0 (sort (map fst order)) = Ret files"
    by (rule config_gen_Ret [OF assms(2-6,8)])
  from write_files_Ret [OF files assms(10)] obtain i sb pb where i: "i < length order" "i < length shares"
    and f: "f = sort (map fst order) ! i @ ''.yaml''"
    and sb: "EncodeTSPartialKey k (shares ! i) = Inr sb" and pb: "EncodeTSPublicKey k pubPoly = Inr pb"
    and st: "st = node_settings tmpl cluster ports privs pubs sb pb (sort (map fst order) ! i)" by auto
  let ?name = "sort (map fst order) ! i"
  have "?name \<in> fst ` set order" using i nth_mem [of i "sort (map fst order)"] by simp
  then obtain x where "(?name, x) \<in> set order" by auto
  then obtain pub0 priv0 where own: "gen ?name = Inr (pub0, priv0)" "lookup_str privs ?name = hex_EncodeToString priv0"
    using generated_D [OF gen] by (metis lookup_str_def option.case(2))
  have low: "\<forall>n. fmlookup pubs n \<noteq> None \<longrightarrow> lower_key n"
  proof (intro allI impI)
    fix n assume "fmlookup pubs n \<noteq> None"
    with gen obtain y where "(n, y) \<in> set order" unfolding generated_def by auto
    with map_order_lookup [OF assms(4)] assms(7) show "lower_key n" unfolding lower_maps_def by fastforce
  qed
  note r = reads_node_settings [OF assms(11) [unfolded st] assms(12) [unfolded st] assms(7) low]
  have pk: "map_order (fmmap VString pubs) pk_order" using assms(13) by (simp only: r)
  note names = generated_peers(1) [OF gen assms(4) pk]
  have share: "DecodeTSPartialKey k sb = Inr (shares ! i)"
    by (rule DecodeTSPartialKey_Encode [OF assms(1) sb]) (use assms(9) i in \<open>auto simp: list_all_length\<close>)
  note public = DecodeTSPublicKey_Encode [OF assms(1) pb]
  show ?thesis
  proof (cases "\<forall>n \<in> fst ` set order. dotless n")
    case True
    note g = generated_dotless [OF gen True]
    have ips: "map_order ?ips order" using assms(4) by (simp only: fmfilter_dotless [OF assms(4) True])
    obtain conf where conf: "LoadConfig k read pfx nm pk_order = Ret (Inr conf)" "conf_Name conf = ?name"
      "conf_PrivateKey conf = priv0" "conf_TsPublicKey conf = pubPoly" "conf_TsPrivateKey conf = shares ! i"
      "list_all (\<lambda>(name, pk). peer_loaded ?ports ?ips
         (conf_PublicKeyMap conf, conf_ClusterPort conf, conf_ClusterAddr conf) name pk) pk_order"
      "fmdom' (conf_PublicKeyMap conf) = fst ` set order" "fmdom' (conf_ClusterAddr conf) = fst ` set order"
      by (rule LoadConfig_ok [where read = read and pfx = pfx and nm = nm and priv = priv0 and order = pk_order,
          OF refl r(1) _ r(6) public r(5) share])
        (use generated_peers(2) [OF g ips pk] names pk own in \<open>simp_all add: r map_order_def\<close>)
    have "list_all (\<lambda>(name, addr). \<exists>pub priv a p. gen name = Inr (pub, priv) \<and> addr = VString a \<and>
        fmlookup (v_GetStringMap tmpl ''peers_p2p_port'') name = Some (VInt p) \<and>
        fmlookup (conf_PublicKeyMap conf) name = Some pub \<and>
        fmlookup (conf_ClusterAddr conf) name = Some a \<and> fmlookup (conf_ClusterPort conf) name = Some p) order"
      by (rule list.pred_mono_strong [OF generated_loaded [OF g ips pk conf(6)]]) (auto split: if_splits)
    then have "loaded_as gen tmpl order shares pubPoly i conf"
      using own conf by (simp add: loaded_as_def)
    with conf(1) i f True show ?thesis by auto
  next
    case False
    then obtain n where n: "n \<in> fst ` set pk_order" "\<not> dotless n" unfolding names by blast
    then obtain pk0 where pk0: "(n, pk0) \<in> set pk_order" by auto
    have strs: "list_all (\<lambda>(name, pk). \<exists>s b. pk = VString s \<and> hex_DecodeString s = Inr b) pk_order"
      by (rule list.pred_mono_strong [OF generated_peers(2) [OF gen assms(4) pk]]) (auto simp: peer_ok_def)
    have "LoadConfig k read pfx nm pk_order = Panic BadTypeAssertion"
      by (rule LoadConfig_incomplete [where read = read and pfx = pfx and nm = nm and priv = priv0,
          OF refl r(1) _ _ public _ share strs pk0])
        (use own n(2) in \<open>simp_all add: r\<close>)
    with False show ?thesis by (simp only: if_False)
  qed
qed

text \<open>A template for one node and what reads a file back.\<close>

definition one_template :: viper where
  "one_template =
     \<lparr>v_ReadInConfig = None, v_GetString = (\<lambda>key. []), v_GetInt = (\<lambda>key. 1), v_GetBool = (\<lambda>key. True),
      v_GetStringMap = (\<lambda>key. if key = ''ips'' then fmap_of_list [(''a'', VString ''10.0.0.1'')]
        else if key = ''peers_p2p_port'' then fmap_of_list [(''a'', VInt 9000)] else fmempty)\<rparr>"

definition reader :: "settings \<Rightarrow> viper_setup \<Rightarrow> viper" where
  "reader st su = (let get = map_of (map (\<lambda>(key, x). (ToLower key, x)) st) in
     \<lparr>v_ReadInConfig = None,
      v_GetString = (\<lambda>key. case get key of Some (VString s) \<Rightarrow> s | _ \<Rightarrow> []),
      v_GetInt = (\<lambda>key. case get key of Some (VInt i) \<Rightarrow> i | _ \<Rightarrow> 0),
      v_GetBool = (\<lambda>key. case get key of Some (VBool b) \<Rightarrow> b | _ \<Rightarrow> False),
      v_GetStringMap = (\<lambda>key. case get key of Some (VMap m) \<Rightarrow> fmfilter dotless m
        | Some (VStringMap m) \<Rightarrow> fmmap VString m | _ \<Rightarrow> fmempty)\<rparr>)"

abbreviation no_env :: "string \<Rightarrow> string option" where "no_env \<equiv> \<lambda>x. None"

lemma reader_reads:
  "reads_settings su no_env (reader (node_settings tmpl cluster ports privs pubs sb pb name) su')
     (node_settings tmpl cluster ports privs pubs sb pb name)"
  "no_override su no_env st"
  by (simp_all add: reads_settings_def reads_setting_def reader_def node_settings_def keys_lower Let_def
      env_value_def no_override_def list_all_iff)

definition byte_dealer :: "(int \<times> u8, u8, u8 \<times> u8 list) dealer" where
  "byte_dealer =
     \<lparr>NewPriPoly = (\<lambda>t s. (t, s)), Commit = (\<lambda>(t, s). (s, [s])),
      Shares = (\<lambda>(t, s) n. map (\<lambda>i. \<lparr>share_I = i, share_V = s\<rparr>) [0..n - 1])\<rparr>"

abbreviation gen_a :: "string \<Rightarrow> error + bytes \<times> bytes" where
  "gen_a name \<equiv> Inr (replicate 32 1, replicate 64 2)"

theorem generated_files_load_witness:
  "\<exists>st conf. config_gen byte_kyber byte_dealer 5 gen_a (\<lambda>su. one_template) [(''a'', VString ''10.0.0.1'')] [''a''] [''a''] =
       Ret [(''a.yaml'', st)] \<and>
     LoadConfig byte_kyber (reader st) '''' ''config'' [(''a'', VString (hex_EncodeToString (replicate 32 1)))] = Ret (Inr conf) \<and>
     conf_Name conf = ''a'' \<and> conf_TsPublicKey conf = (5, [5])"
proof -
  let ?order = "[(''a'', VString ''10.0.0.1'')]"
    and ?pk_order = "[(''a'', VString (hex_EncodeToString (replicate 32 1)))]"
  obtain sb pb where e: "EncodeTSPartialKey byte_kyber \<lparr>share_I = 0, share_V = 5\<rparr> = Inr sb"
    "EncodeTSPublicKey byte_kyber (5, [5]) = Inr pb" using byte_kyber_encodes by blast
  have shares: "GenTSKeys byte_dealer 5 (numT (int (length ?order))) (int (length ?order)) =
      ([\<lparr>share_I = 0, share_V = 5\<rparr>], (5, [5]))"
    by (simp add: GenTSKeys_def byte_dealer_def)
  let ?pubs = "fmupd ''a'' (hex_EncodeToString (replicate 32 1)) fmempty"
  define st where "st = node_settings one_template (fmupd ''a'' ''10.0.0.1'' fmempty) (fmupd ''a'' 9000 fmempty)
      (fmupd ''a'' (hex_EncodeToString (replicate 64 2)) fmempty) ?pubs sb pb ''a''"
  have len: "map_len (fmap_of_list [(''a'', x)]) = 1" for x :: setting by simp
  have gen: "config_gen byte_kyber byte_dealer 5 gen_a (\<lambda>su. one_template) ?order [''a''] [''a''] = Ret [(''a.yaml'', st)]"
    using shares e by (simp add: config_gen_def one_template_def Let_def GenED25519Keys_def st_def del: hex_EncodeToString.simps)
  have low: "lower_maps one_template"
    by (simp add: lower_maps_def one_template_def lower_key_def ToLower_def lower_def)
  have order: "map_order (v_GetStringMap one_template ''ips'') ?order" by (simp add: one_template_def map_order_def)
  have pk: "map_order (v_GetStringMap (reader st (config_setup '''' ''config'')) ''cluster_pubkeyed'') ?pk_order"
    by (simp add: st_def reader_def node_settings_def keys_lower Let_def map_order_def fmap_ext del: hex_EncodeToString.simps)
  have reads: "reads_settings (config_setup '''' ''config'') no_env (reader st (config_setup '''' ''config'')) st"
    "no_override (config_setup '''' ''config'') no_env st" unfolding st_def by (rule reader_reads)+
  have "dotless ''a''" by (simp add: dotless_def)
  with generated_files_load [where tread = "\<lambda>su. one_template" and read = "reader st" and pfx = "''''" and nm = "''config''"
      and f = "''a.yaml''", OF byte_kyber_ok gen refl order _ _ low shares _ _ reads pk]
  have "\<exists>conf. LoadConfig byte_kyber (reader st) '''' ''config'' ?pk_order = Ret (Inr conf) \<and>
      conf_Name conf = ''a'' \<and> conf_TsPublicKey conf = (5, [5])"
    by (auto simp: loaded_as_def)
  with gen show ?thesis by blast
qed

section \<open>The threshold and the quorum\<close>

text \<open>C36: The quorum every node computes, in floating point, is the threshold its share was dealt
  for, in integers: a certificate needs as many partial signatures as the scheme needs to
  recover a signature, and their number is the cluster's two thirds rounded up.\<close>

theorem threshold_is_quorum:
  assumes "NewNode c conf = Ret n" and "fmdom' (conf_ClusterAddr conf) = fst ` set order"
    and "distinct (map fst order)" and "length order < 2 ^ 49"
  shows "quorumNum n = numT (int (length order)) \<and> nodeNum n = int (length order) \<and>
    3 * quorumNum n \<ge> 2 * nodeNum n \<and> 3 * quorumNum n < 2 * nodeNum n + 3"
proof -
  have "map_len (conf_ClusterAddr conf) = card (set (map fst order))" using assms(2) by (simp add: map_len_card)
  also have "\<dots> = length order" using distinct_card [OF assms(3)] by simp
  finally have len: "map_len (conf_ClusterAddr conf) = length order" .
  have "quorumNum n = quorum_of (length order) \<and> nodeNum n = int (length order)"
    using assms(1) by (auto simp: NewNode_def Let_def len split: sum.splits)
  then show ?thesis using quorum_of_thirds [OF assms(4)] by (simp add: numT_def) presburger
qed

theorem threshold_is_quorum_witness:
  "\<exists>n. NewNode toy (toy_config [''a'', ''b'', ''c'', ''d'']) = Ret n \<and> quorumNum n = numT 4 \<and> numT 4 = 3"
proof -
  let ?conf = "toy_config [''a'', ''b'', ''c'', ''d'']"
    and ?order = "map (\<lambda>x. (x, ''host'')) [''a'', ''b'', ''c'', ''d'']"
  obtain n where n: "NewNode toy ?conf = Ret n" by (simp add: exec_simps)
  have "conf_ClusterAddr ?conf = fmap_of_list ?order" by (simp add: toy_config_def config_New_def)
  then have "fmdom' (conf_ClusterAddr ?conf) = fst ` set ?order"
    by (simp only: fmdom'_alt_def fmdom_of_list) (simp add: fset_of_list.rep_eq)
  then have "quorumNum n = numT (int (length ?order))"
    using threshold_is_quorum [OF n, of ?order] by simp
  with n show ?thesis by (simp add: numT_def)
qed

section \<open>Files that are refused\<close>

lemma json_bytes_start:
  assumes "string_of_bytes bs = c # s" and "\<not> is_space c"
    and "c \<notin> {CHR 0x22, CHR 0x5B, CHR 0x7B, CHR ''n'', CHR ''t'', CHR ''f'', CHR ''-''}" and "\<not> is_digit c"
  shows "json_Decode bs = Inl ErrJSON"
proof -
  have "digits (c # s) = ([], c # s)" using assms(4) by (simp add: digits_def)
  moreover have "c \<noteq> CHR ''0''" using assms(4) by (auto simp: is_digit_def)
  ultimately have "parse_number (c # s) = None" using assms(3) by (simp add: parse_number_def)
  then have "parse_value (Suc n) (c # s) = None" for n using assms(2,3) by simp
  then show ?thesis by (simp add: json_Decode_def assms(1) del: parse_value.simps)
qed

text \<open>\<open>LoadConfig\<close> refuses a threshold key that is not JSON, as the key in the sample file
  \<open>config.yaml\<close> is, which begins with the byte 3f: it returns an error before it looks at
  the peers.\<close>

theorem sample_key_is_refused:
  assumes "v_GetString (read (config_setup pfx nm)) ''tspubkey'' = CHR ''3'' # CHR ''f'' # rest"
  shows "\<exists>err. LoadConfig k read pfx nm order = Ret (Inl err)"
proof -
  have "DecodeTSPublicKey k bs = Inl ErrJSON" if h: "hex_DecodeString (CHR ''3'' # CHR ''f'' # rest) = Inr bs" for bs
  proof -
    obtain bs' where "bs = 63 # bs'"
      using h by (auto simp: fromHexChar_def split: sum.splits)
    moreover have "char_of (63 :: nat) = CHR ''?''" by code_simp
    ultimately have "string_of_bytes bs = CHR ''?'' # string_of_bytes bs'"
      by (simp add: string_of_bytes_def char_of_byte_def)
    then have "json_Decode bs = Inl ErrJSON"
      by (rule json_bytes_start) (simp_all add: is_space_def is_digit_def)
    then show ?thesis by (simp add: DecodeTSPublicKey_def decode_TSPublic_def)
  qed
  then show ?thesis
    using assms by (simp add: LoadConfig_def Let_def split: option.splits sum.splits)
qed

theorem sample_key_is_refused_witness:
  "\<exists>err. LoadConfig byte_kyber (\<lambda>su. one_template\<lparr>v_GetString := \<lambda>key. ''3fff83''\<rparr>) '''' ''config'' [] = Ret (Inl err)"
  by (rule sample_key_is_refused [where rest = "''ff83''"]) simp

text \<open>C37: A node listed with a public key but without a port or an address makes \<open>LoadConfig\<close>
  panic on a type assertion, whatever the order of the iteration, where every other mistake
  in the file is reported as an error.\<close>

theorem incomplete_peer_panics:
  assumes "v = read (config_setup pfx nm)"
    and "v_ReadInConfig v = None" and "hex_DecodeString (v_GetString v ''privkeyed'') = Inr priv"
    and "hex_DecodeString (v_GetString v ''tspubkey'') = Inr pb" and "DecodeTSPublicKey k pb = Inr pubPoly"
    and "hex_DecodeString (v_GetString v ''tsshare'') = Inr sb" and "DecodeTSPartialKey k sb = Inr sh"
    and "list_all (\<lambda>(name, pk). \<exists>s b. pk = VString s \<and> hex_DecodeString s = Inr b) order"
    and "(name, pk) \<in> set order"
    and "fmlookup (v_GetStringMap v ''peers_p2p_port'') name = None \<or> fmlookup (v_GetStringMap v ''cluster_ips'') name = None"
  shows "LoadConfig k read pfx nm order = Panic BadTypeAssertion"
  by (rule LoadConfig_incomplete [where read = read and pfx = pfx and nm = nm, OF assms])

theorem incomplete_peer_panics_witness:
  "\<exists>sb pb. LoadConfig byte_kyber (reader [(''privkeyed'', VString ''00''), (''tspubkey'', VString (hex_EncodeToString pb)),
       (''tsshare'', VString (hex_EncodeToString sb))]) '''' ''config'' [(''a'', VString ''ff'')] = Panic BadTypeAssertion"
proof -
  obtain sb pb where sb: "EncodeTSPartialKey byte_kyber \<lparr>share_I = 0, share_V = 5\<rparr> = Inr sb"
    and pb: "EncodeTSPublicKey byte_kyber (5, [5]) = Inr pb" using byte_kyber_encodes by blast
  let ?st = "[(''privkeyed'', VString ''00''), (''tspubkey'', VString (hex_EncodeToString pb)),
    (''tsshare'', VString (hex_EncodeToString sb))]"
  have keys: "ToLower ''privkeyed'' = ''privkeyed''" "ToLower ''tspubkey'' = ''tspubkey''" "ToLower ''tsshare'' = ''tsshare''"
    by code_simp+
  have share: "DecodeTSPartialKey byte_kyber sb = Inr \<lparr>share_I = 0, share_V = 5\<rparr>"
    by (rule DecodeTSPartialKey_Encode [OF byte_kyber_ok sb]) simp_all
  have "LoadConfig byte_kyber (reader ?st) '''' ''config'' [(''a'', VString ''ff'')] = Panic BadTypeAssertion"
    by (rule incomplete_peer_panics [where read = "reader ?st" and pfx = "''''" and nm = "''config''" and priv = "[0]"
        and name = "''a''" and pk = "VString ''ff''", OF refl _ _ _ DecodeTSPublicKey_Encode [OF byte_kyber_ok pb] _ share])
      (simp_all add: reader_def keys Let_def fromHexChar_def)
  then show ?thesis by blast
qed

end
