(* ===== verification/Transport.thy ===== *)
theory Transport
  imports Node
begin

text \<open>
  The package \<open>conn\<close> and the sending side of a node: \<open>conn/net_transport.go\<close>,
  \<open>conn/net_conn.go\<close>, \<open>conn/tcp_transport.go\<close>, and \<open>broadcast\<close> and
  \<open>EstablishP2PConns\<close> of \<open>core/node.go\<close>.

  What lies below is the operating system's network and go-msgpack. The network is a record
  of functions, one per call, that say how the call ends; since they may depend on what was
  sent before, they stand for every behaviour. go-msgpack is a pair of functions from values
  to bytes and back. The transport's own state is explicit, and so are the bytes that have
  left each connection and the connections that were closed.
\<close>

section \<open>The network\<close>

type_synonym handle = nat

text \<open>A write to a connection either takes all the bytes, or takes some and fails, which is
  the contract of \<open>io.Writer\<close>.\<close>

datatype write_result = Wrote | WriteFailed nat error

record net =
  net_Dial :: "string \<Rightarrow> error + handle"
  net_Write :: "handle \<Rightarrow> bytes \<Rightarrow> bytes \<Rightarrow> write_result"
  net_Close :: "handle \<Rightarrow> error option"

text \<open>What has been observed on the network: bytes sent, connections closed.\<close>

record wires =
  wire_sent :: "handle \<Rightarrow> bytes"
  wire_closed :: "handle list"

definition conn_Write :: "net \<Rightarrow> handle \<Rightarrow> bytes \<Rightarrow> wires \<Rightarrow> wires \<times> nat \<times> error option" where
  "conn_Write net h p w =
     (case net_Write net h (wire_sent w h) p of
        Wrote \<Rightarrow> (w\<lparr>wire_sent := (wire_sent w)(h := wire_sent w h @ p)\<rparr>, length p, None)
      | WriteFailed k err \<Rightarrow> (w\<lparr>wire_sent := (wire_sent w)(h := wire_sent w h @ take k p)\<rparr>, k, Some err))"

section \<open>Buffered writing\<close>

text \<open>\<open>bufio.Writer\<close> with its default buffer: what is buffered and the error that sticks.\<close>

record Writer =
  w_buf :: bytes
  w_err :: "error option"

definition buf_size :: nat where "buf_size = 4096"

definition Flush :: "net \<Rightarrow> handle \<Rightarrow> Writer \<times> wires \<Rightarrow> Writer \<times> wires" where
  "Flush net h bw =
     (let (b, w) = bw in
      if w_err b \<noteq> None \<or> w_buf b = [] then (b, w)
      else
        (case conn_Write net h (w_buf b) w of
           (w', k, None) \<Rightarrow> (b\<lparr>w_buf := []\<rparr>, w')
         | (w', k, Some err) \<Rightarrow> (b\<lparr>w_buf := drop k (w_buf b), w_err := Some err\<rparr>, w')))"

definition WriteByte :: "net \<Rightarrow> handle \<Rightarrow> u8 \<Rightarrow> Writer \<times> wires \<Rightarrow> Writer \<times> wires" where
  "WriteByte net h x bw =
     (let (b, w) = bw in
      if w_err b \<noteq> None then (b, w)
      else
        (let (b, w) = (if length (w_buf b) < buf_size then (b, w) else Flush net h (b, w)) in
         if w_err b \<noteq> None then (b, w) else (b\<lparr>w_buf := w_buf b @ [x]\<rparr>, w)))"

text \<open>Bytes that do not fit fill the buffer and push it out; a rest that is longer than the
  empty buffer goes to the connection directly.\<close>

definition Write :: "net \<Rightarrow> handle \<Rightarrow> bytes \<Rightarrow> Writer \<times> wires \<Rightarrow> Writer \<times> wires" where
  "Write net h p bw =
     (let (b, w) = bw in
      if w_err b \<noteq> None then (b, w)
      else if length p \<le> buf_size - length (w_buf b) then (b\<lparr>w_buf := w_buf b @ p\<rparr>, w)
      else
        (let room = (if w_buf b = [] then 0 else buf_size - length (w_buf b));
             (b, w) = (if w_buf b = [] then (b, w)
                       else Flush net h (b\<lparr>w_buf := w_buf b @ take room p\<rparr>, w));
             q = drop room p in
         if w_err b \<noteq> None then (b, w)
         else if length q \<le> buf_size then (b\<lparr>w_buf := q\<rparr>, w)
         else
           (case conn_Write net h q w of
              (w', k, None) \<Rightarrow> (b, w')
            | (w', k, Some err) \<Rightarrow> (b\<lparr>w_err := Some err\<rparr>, w'))))"

section \<open>Connections and the pool\<close>

record NetConn =
  nc_target :: string
  nc_conn :: handle
  nc_w :: Writer

definition Release :: "net \<Rightarrow> NetConn \<Rightarrow> wires \<Rightarrow> wires \<times> error option" where
  "Release net c w = (w\<lparr>wire_closed := nc_conn c # wire_closed w\<rparr>, net_Close net (nc_conn c))"

text \<open>A context for the handlers of connections: whether it was cancelled.\<close>

record Context =
  ctx_done :: bool

text \<open>\<open>shutdownCh\<close> is the state of the channel: whether it is closed.\<close>

record NetworkTransport =
  connPool :: "(string, NetConn list) fmap"
  maxPool :: int
  reflectedTypes :: "u8 set"
  shutdown :: bool
  shutdownCh :: bool
  streamClosed :: bool
  streamCtx :: "Context option"

text \<open>The new context; its cancel function would set \<open>ctx_done\<close>, but nothing calls it.\<close>

definition setupStreamContext :: "NetworkTransport \<Rightarrow> NetworkTransport" where
  "setupStreamContext t = t\<lparr>streamCtx := Some \<lparr>ctx_done = False\<rparr>\<rparr>"

definition getStreamContext :: "NetworkTransport \<Rightarrow> Context option" where
  "getStreamContext t = streamCtx t"

definition GetStreamContext :: "NetworkTransport \<Rightarrow> Context option" where
  "GetStreamContext t = getStreamContext t"

definition ConnPool :: "NetworkTransport \<Rightarrow> (string, NetConn list) fmap" where
  "ConnPool t = connPool t"

record NetworkTransportConfig =
  ntc_MaxPool :: int
  ntc_ReflectedTypesMap :: "u8 set"

definition NewNetworkTransportWithConfig :: "NetworkTransportConfig \<Rightarrow> NetworkTransport" where
  "NewNetworkTransportWithConfig config =
     setupStreamContext
       \<lparr>connPool = fmempty, maxPool = ntc_MaxPool config,
        reflectedTypes = ntc_ReflectedTypesMap config,
        shutdown = False, shutdownCh = False, streamClosed = False, streamCtx = None\<rparr>"

definition NewNetworkTransport :: "int \<Rightarrow> u8 set \<Rightarrow> NetworkTransport" where
  "NewNetworkTransport poolSize types =
     NewNetworkTransportWithConfig \<lparr>ntc_MaxPool = poolSize, ntc_ReflectedTypesMap = types\<rparr>"

lemma NewNetworkTransport_eq:
  "NewNetworkTransport poolSize types =
     \<lparr>connPool = fmempty, maxPool = poolSize, reflectedTypes = types,
      shutdown = False, shutdownCh = False, streamClosed = False, streamCtx = Some \<lparr>ctx_done = False\<rparr>\<rparr>"
  by (simp add: NewNetworkTransport_def NewNetworkTransportWithConfig_def setupStreamContext_def)

definition IsShutdown :: "NetworkTransport \<Rightarrow> bool" where
  "IsShutdown t = shutdownCh t"

text \<open>Closing a closed channel would panic; the flag \<open>shutdown\<close> keeps that from happening.\<close>

definition Close :: "NetworkTransport \<Rightarrow> NetworkTransport outcome" where
  "Close t =
     (if \<not> shutdown t then
        (if shutdownCh t then Panic ClosedChannel
         else Ret (t\<lparr>shutdownCh := True, streamClosed := True, shutdown := True\<rparr>))
      else Ret t)"

definition dialConn :: "net \<Rightarrow> string \<Rightarrow> error + NetConn" where
  "dialConn net target =
     (case net_Dial net target of
        Inl err \<Rightarrow> Inl err
      | Inr h \<Rightarrow> Inr \<lparr>nc_target = target, nc_conn = h, nc_w = \<lparr>w_buf = [], w_err = None\<rparr>\<rparr>)"

definition GetConn ::
  "net \<Rightarrow> NetworkTransport \<Rightarrow> string \<Rightarrow> NetworkTransport \<times> (error + NetConn)" where
  "GetConn net t target =
     (case fmlookup (connPool t) target of
        Some (c # cs) \<Rightarrow>
          (t\<lparr>connPool := fmupd target (butlast (c # cs)) (connPool t)\<rparr>, Inr (last (c # cs)))
      | _ \<Rightarrow> (t, dialConn net target))"

definition ReturnConn ::
  "net \<Rightarrow> NetworkTransport \<Rightarrow> NetConn \<Rightarrow> wires \<Rightarrow> NetworkTransport \<times> wires \<times> error option" where
  "ReturnConn net t c w =
     (let key = nc_target c;
          netConns = (case fmlookup (connPool t) key of None \<Rightarrow> [] | Some cs \<Rightarrow> cs) in
      if \<not> IsShutdown t \<and> int (length netConns) < maxPool t
      then (t\<lparr>connPool := fmupd key (netConns @ [c]) (connPool t)\<rparr>, w, None)
      else (let (w', err) = Release net c w in (t, w', err)))"

section \<open>Sending\<close>

text \<open>go-msgpack: the bytes of a value, and the value at the head of a sequence of bytes with
  how many bytes it took, read as the type of a tag.\<close>

record 'v msgpack =
  mp_Encode :: "'v \<Rightarrow> error + bytes"
  mp_EncodeSig :: "gobytes \<Rightarrow> bytes"
  mp_Decode :: "u8 \<Rightarrow> bytes \<Rightarrow> error + 'v \<times> nat"
  mp_DecodeSig :: "bytes \<Rightarrow> error + gobytes \<times> nat"

text \<open>\<open>SendMsg\<close>: at an error the connection is closed and the error returned.\<close>

definition SendMsg ::
  "net \<Rightarrow> 'v msgpack \<Rightarrow> NetConn \<Rightarrow> u8 \<Rightarrow> 'v \<Rightarrow> gobytes \<Rightarrow> wires \<Rightarrow> NetConn \<times> wires \<times> error option"
where
  "SendMsg net mp c rpcType args sig w =
     (let fail = (\<lambda>b w err. (c\<lparr>nc_w := b\<rparr>, fst (Release net c w), Some err));
          h = nc_conn c;
          (b1, w1) = WriteByte net h rpcType (nc_w c, w) in
      case w_err b1 of Some err \<Rightarrow> fail b1 w1 err | None \<Rightarrow>
      (case mp_Encode mp args of Inl err \<Rightarrow> fail b1 w1 err | Inr body \<Rightarrow>
      (let (b2, w2) = Write net h body (b1, w1) in
       case w_err b2 of Some err \<Rightarrow> fail b2 w2 err | None \<Rightarrow>
       (let (b3, w3) = Write net h (mp_EncodeSig mp sig) (b2, w2) in
        case w_err b3 of Some err \<Rightarrow> fail b3 w3 err | None \<Rightarrow>
        (let (b4, w4) = Flush net h (b3, w3) in
         case w_err b4 of Some err \<Rightarrow> fail b4 w4 err | None \<Rightarrow>
         (c\<lparr>nc_w := b4\<rparr>, w4, None))))))"

text \<open>\<open>strconv.Itoa(n.clusterPort[name])\<close>: a name without a port reads as 0.\<close>

definition port_string :: "(string, int) fmap \<Rightarrow> string \<Rightarrow> string" where
  "port_string ports name = json_int (case fmlookup ports name of None \<Rightarrow> 0 | Some p \<Rightarrow> p)"

text \<open>The loop of \<open>broadcast\<close> over the peers, in the order of the \<open>range\<close>.\<close>

fun broadcast_loop ::
  "net \<Rightarrow> 'v msgpack \<Rightarrow> (string, int) fmap \<Rightarrow> string set \<Rightarrow> u8 \<Rightarrow> 'v \<Rightarrow> gobytes \<Rightarrow>
   (string \<times> string) list \<Rightarrow> NetworkTransport \<Rightarrow> wires \<Rightarrow>
   NetworkTransport \<times> wires \<times> error option" where
  "broadcast_loop net mp ports exc msgType msg sig [] t w = (t, w, None)"
| "broadcast_loop net mp ports exc msgType msg sig ((name, addr) # peers) t w =
     (let addrWithPort = addr @ '':'' @ port_string ports name in
      if addrWithPort \<in> exc then broadcast_loop net mp ports exc msgType msg sig peers t w
      else
        (case GetConn net t addrWithPort of
           (t1, Inl err) \<Rightarrow> (t1, w, Some err)
         | (t1, Inr c) \<Rightarrow>
             (case SendMsg net mp c msgType msg sig w of
                (c', w1, Some err) \<Rightarrow> (t1, w1, Some err)
              | (c', w1, None) \<Rightarrow>
                  (case ReturnConn net t1 c' w1 of
                     (t2, w2, Some err) \<Rightarrow> (t2, w2, Some err)
                   | (t2, w2, None) \<Rightarrow>
                       broadcast_loop net mp ports exc msgType msg sig peers t2 w2))))"

text \<open>\<open>broadcast\<close>: the message is encoded as JSON to be signed, and sent as msgpack.\<close>

definition broadcast ::
  "('ps, 'pp) crypto \<Rightarrow> net \<Rightarrow> message msgpack \<Rightarrow> ('ps, 'pp) node \<Rightarrow> message \<Rightarrow> string set \<Rightarrow>
   (string \<times> string) list \<Rightarrow> NetworkTransport \<Rightarrow> wires \<Rightarrow>
   (NetworkTransport \<times> wires \<times> error option) outcome" where
  "broadcast c net mp n msg exc peers t w =
     bind_outcome (broadcast_sig c n msg)
       (\<lambda>r. case r of
            Inl err \<Rightarrow> Ret (t, w, Some err)
          | Inr sig \<Rightarrow>
              Ret (broadcast_loop net mp (clusterPort n) exc (msg_tag msg) msg (Some sig) peers t w))"

text \<open>The loop of \<open>EstablishP2PConns\<close>; the result of \<open>ReturnConn\<close> is dropped.\<close>

fun establish_loop ::
  "net \<Rightarrow> (string, int) fmap \<Rightarrow> (string \<times> string) list \<Rightarrow> NetworkTransport \<Rightarrow> wires \<Rightarrow>
   NetworkTransport \<times> wires \<times> error option" where
  "establish_loop net ports [] t w = (t, w, None)"
| "establish_loop net ports ((name, addr) # peers) t w =
     (case GetConn net t (addr @ '':'' @ port_string ports name) of
        (t1, Inl err) \<Rightarrow> (t1, w, Some err)
      | (t1, Inr c) \<Rightarrow>
          (case ReturnConn net t1 c w of
             (t2, w2, err) \<Rightarrow> establish_loop net ports peers t2 w2))"

definition EstablishP2PConns ::
  "net \<Rightarrow> ('ps, 'pp) node \<Rightarrow> (string \<times> string) list \<Rightarrow> NetworkTransport option \<Rightarrow> wires \<Rightarrow>
   NetworkTransport option \<times> wires \<times> error option" where
  "EstablishP2PConns net n peers tr w =
     (case tr of
        None \<Rightarrow> (None, w, Some ErrNoTransport)
      | Some t \<Rightarrow> (case establish_loop net (clusterPort n) peers t w of
          (t', w', err) \<Rightarrow> (Some t', w', err)))"

text \<open>\<open>newTCPTransport\<close> and \<open>StartP2PListen\<close>: \<open>bind\<close> is how \<open>net.Listen\<close> ends.\<close>

definition newTCPTransport ::
  "(string \<Rightarrow> error option) \<Rightarrow> string \<Rightarrow> NetworkTransport \<Rightarrow> error + NetworkTransport" where
  "newTCPTransport bind bindAddr created =
     (case bind bindAddr of Some err \<Rightarrow> Inl err | None \<Rightarrow> Inr created)"

definition NewTCPTransport ::
  "(string \<Rightarrow> error option) \<Rightarrow> string \<Rightarrow> int \<Rightarrow> u8 set \<Rightarrow> error + NetworkTransport" where
  "NewTCPTransport bind bindAddr poolSize types =
     newTCPTransport bind bindAddr (NewNetworkTransport poolSize types)"

definition reflectedTypesMap :: "u8 set" where
  "reflectedTypesMap = {ProposalTag, VoteTag, SortitionTag}"

definition StartP2PListen ::
  "(string \<Rightarrow> error option) \<Rightarrow> ('ps, 'pp) node \<Rightarrow> error + NetworkTransport" where
  "StartP2PListen bind n =
     NewTCPTransport bind ('':'' @ port_string (clusterPort n) (node_name n)) (node_maxPool n) reflectedTypesMap"

section \<open>Receiving\<close>

record 'v MsgWithSig =
  Msg :: 'v
  Sig :: gobytes

text \<open>
  \<open>handleMsg\<close> reads one frame from the bytes that are left, \<open>stop\<close> being the error of the
  stream where they end; \<open>down\<close> is that the final \<open>select\<close> takes the closed shutdown
  channel rather than the send. It returns the message it sent on the channel and the rest.
\<close>

definition handleMsg ::
  "'v msgpack \<Rightarrow> NetworkTransport \<Rightarrow> error \<Rightarrow> bool \<Rightarrow> bytes \<Rightarrow> error + 'v MsgWithSig \<times> bytes" where
  "handleMsg mp t stop down input =
     (case input of
        [] \<Rightarrow> Inl stop
      | rpcType # rest \<Rightarrow>
          if rpcType \<notin> reflectedTypes t then Inl (ErrUnknownType rpcType)
          else
            (case mp_Decode mp rpcType rest of
               Inl err \<Rightarrow> Inl err
             | Inr (msgBody, k) \<Rightarrow>
                 (case mp_DecodeSig mp (drop k rest) of
                    Inl err \<Rightarrow> Inl err
                  | Inr (sig, k') \<Rightarrow>
                      if down \<and> IsShutdown t then Inl ErrTransportShutdown
                      else Inr (\<lparr>Msg = msgBody, Sig = sig\<rparr>, drop k' (drop k rest)))))"

lemma handleMsg_shorter:
  "handleMsg mp t stop d input = Inr (m, rest) \<Longrightarrow> length rest < length input"
  by (auto simp: handleMsg_def less_Suc_eq_le split: list.splits sum.splits if_splits)

text \<open>
  The loop of \<open>handleConn\<close>, until an error or until its context is cancelled: the messages it
  hands over and the error. \<open>ctx\<close> is the context as each round finds it. \<open>w\<close> is the writer
  that each round flushes.
\<close>

function handleConn_loop ::
  "net \<Rightarrow> 'v msgpack \<Rightarrow> NetworkTransport \<Rightarrow> handle \<Rightarrow> error \<Rightarrow> (nat \<Rightarrow> Context) \<Rightarrow> (nat \<Rightarrow> bool) \<Rightarrow> nat \<Rightarrow>
   bytes \<Rightarrow> Writer \<times> wires \<Rightarrow> 'v MsgWithSig list \<times> error option \<times> wires" where
  "handleConn_loop net mp t h stop ctx down i input bw =
     (if ctx_done (ctx i) then ([], None, snd bw)
      else
        (case handleMsg mp t stop (down i) input of
           Inl err \<Rightarrow> ([], Some err, snd bw)
         | Inr (m, rest) \<Rightarrow>
             (case Flush net h bw of
                (b, w) \<Rightarrow>
                  (case w_err b of
                     Some err \<Rightarrow> ([m], Some err, w)
                   | None \<Rightarrow>
                       (case handleConn_loop net mp t h stop ctx down (Suc i) rest (b, w) of
                          (ms, r) \<Rightarrow> (m # ms, r))))))"
  by pat_completeness auto
termination
  by (relation "measure (\<lambda>(net, mp, t, h, stop, ctx, down, i, input, bw). length input)")
    (auto dest: handleMsg_shorter)

declare handleConn_loop.simps [simp del]

definition handleConn ::
  "net \<Rightarrow> 'v msgpack \<Rightarrow> NetworkTransport \<Rightarrow> error \<Rightarrow> (nat \<Rightarrow> Context) \<Rightarrow> (nat \<Rightarrow> bool) \<Rightarrow> handle \<Rightarrow>
   bytes \<Rightarrow> wires \<Rightarrow> 'v MsgWithSig list \<times> wires" where
  "handleConn net mp t stop ctx down h input w =
     (case handleConn_loop net mp t h stop ctx down 0 input (\<lparr>w_buf = [], w_err = None\<rparr>, w) of
        (ms, err, w') \<Rightarrow> (ms, w'\<lparr>wire_closed := h # wire_closed w'\<rparr>))"

text \<open>
  One round of \<open>listen\<close>, with the delays in nanoseconds: \<open>timer\<close> is that the timer wins
  the \<open>select\<close> against the closed shutdown channel.
\<close>

datatype accepted = Accepted handle | AcceptFailed error
datatype listening = Handle "Context option" handle | Sleep nat | Stop

definition baseDelay :: nat where "baseDelay = 5000000"
definition maxDelay :: nat where "maxDelay = 1000000000"

definition listen_round ::
  "NetworkTransport \<Rightarrow> nat \<Rightarrow> accepted \<Rightarrow> bool \<Rightarrow> nat \<times> listening" where
  "listen_round t loopDelay a timer =
     (case a of
        Accepted h \<Rightarrow> (0, Handle (getStreamContext t) h)
      | AcceptFailed err \<Rightarrow>
          (let loopDelay = (if loopDelay = 0 then baseDelay else loopDelay * 2);
               loopDelay = (if loopDelay > maxDelay then maxDelay else loopDelay) in
           if \<not> IsShutdown t then (loopDelay, Stop)
           else if timer then (loopDelay, Sleep loopDelay)
           else (loopDelay, Stop)))"

text \<open>The handlers started over a sequence of rounds, each with its context and connection; each
  round comes with the state the transport is in by then.\<close>

fun listen :: "nat \<Rightarrow> (NetworkTransport \<times> accepted \<times> bool) list \<Rightarrow> (Context option \<times> handle) list \<times> bool" where
  "listen loopDelay [] = ([], True)"
| "listen loopDelay ((t, a, timer) # rounds) =
     (case listen_round t loopDelay a timer of
        (d, Handle ctx h) \<Rightarrow> (case listen d rounds of (hs, on) \<Rightarrow> ((ctx, h) # hs, on))
      | (d, Sleep k) \<Rightarrow> listen d rounds
      | (d, Stop) \<Rightarrow> ([], False))"

section \<open>What a writer has been given\<close>

text \<open>The bytes of a connection in order: those that have left, then those buffered.\<close>

definition stream_of :: "handle \<Rightarrow> Writer \<times> wires \<Rightarrow> bytes" where
  "stream_of h bw = wire_sent (snd bw) h @ w_buf (fst bw)"

text \<open>An operation on a connection's writer that appends \<open>p\<close>: unless the writer has failed,
  its bytes have grown by \<open>p\<close>; other connections are not touched and none is closed.\<close>

definition appends :: "handle \<Rightarrow> bytes \<Rightarrow> Writer \<times> wires \<Rightarrow> Writer \<times> wires \<Rightarrow> bool" where
  "appends h p bw bw' \<longleftrightarrow>
     (w_err (fst bw') = None \<longrightarrow> w_err (fst bw) = None \<and> stream_of h bw' = stream_of h bw @ p) \<and>
     (\<forall>h'. h' \<noteq> h \<longrightarrow> wire_sent (snd bw') h' = wire_sent (snd bw) h') \<and>
     wire_closed (snd bw') = wire_closed (snd bw)"

lemma appends_trans: "appends h p x y \<Longrightarrow> appends h q y z \<Longrightarrow> appends h (p @ q) x z"
  by (auto simp: appends_def)

lemma appends_refl: "appends h [] x x"
  by (simp add: appends_def)

lemma Flush_appends: "appends h [] bw (Flush net h bw)"
  by (cases bw) (auto simp: Flush_def appends_def stream_of_def conn_Write_def split: write_result.splits)

lemma Flush_empty: "w_err (fst (Flush net h bw)) = None \<Longrightarrow> w_buf (fst (Flush net h bw)) = []"
  by (cases bw) (auto simp: Flush_def conn_Write_def split: write_result.splits if_splits)

lemma buffer_appends:
  "appends h p (b, w) (b\<lparr>w_buf := w_buf b @ p\<rparr>, w)"
  by (simp add: appends_def stream_of_def)

lemma WriteByte_appends: "appends h [x] bw (WriteByte net h x bw)"
proof (cases bw)
  case (Pair b w)
  obtain b1 w1 where f: "(if length (w_buf b) < buf_size then (b, w) else Flush net h (b, w)) = (b1, w1)"
    by fastforce
  have a: "appends h [] (b, w) (b1, w1)"
  proof (cases "length (w_buf b) < buf_size")
    case True
    with f show ?thesis using appends_refl by auto
  next
    case False
    with f show ?thesis using Flush_appends [of h "(b, w)" net] by simp
  qed
  show ?thesis
    using f a Pair appends_trans [OF a buffer_appends [of h "[x]" b1 w1]]
    by (auto simp: WriteByte_def Let_def appends_def)
qed

lemma Write_appends: "appends h p bw (Write net h p bw)"
proof (cases bw)
  case (Pair b w)
  show ?thesis
  proof (cases "w_err b \<noteq> None \<or> length p \<le> buf_size - length (w_buf b)")
    case True
    with Pair show ?thesis using buffer_appends [of h p b w] by (auto simp: Write_def appends_def)
  next
    case False
    let ?room = "if w_buf b = [] then 0 else buf_size - length (w_buf b)"
    obtain b1 w1 where f: "(if w_buf b = [] then (b, w)
        else Flush net h (b\<lparr>w_buf := w_buf b @ take ?room p\<rparr>, w)) = (b1, w1)" by fastforce
    have a: "appends h (take ?room p) (b, w) (b1, w1)"
    proof (cases "w_buf b = []")
      case True
      with f show ?thesis using appends_refl by auto
    next
      case nonempty: False
      have "appends h (take ?room p @ []) (b, w) (b1, w1)"
        by (rule appends_trans [OF buffer_appends])
          (use f nonempty Flush_appends [of h "(b\<lparr>w_buf := w_buf b @ take ?room p\<rparr>, w)" net] in simp)
      then show ?thesis by simp
    qed
    have empty: "w_err b1 = None \<Longrightarrow> w_buf b1 = []"
      using f Flush_empty [of net h "(b\<lparr>w_buf := w_buf b @ take ?room p\<rparr>, w)"]
      by (cases "w_buf b = []") auto
    have rest: "appends h (drop ?room p) (b1, w1)
        (if w_err b1 \<noteq> None then (b1, w1)
         else if length (drop ?room p) \<le> buf_size then (b1\<lparr>w_buf := drop ?room p\<rparr>, w1)
         else (case conn_Write net h (drop ?room p) w1 of
                 (w', k, None) \<Rightarrow> (b1, w')
               | (w', k, Some err) \<Rightarrow> (b1\<lparr>w_err := Some err\<rparr>, w')))"
      using empty by (auto simp: appends_def stream_of_def conn_Write_def split: write_result.splits)
    have "Write net h p bw = (if w_err b1 \<noteq> None then (b1, w1)
         else if length (drop ?room p) \<le> buf_size then (b1\<lparr>w_buf := drop ?room p\<rparr>, w1)
         else (case conn_Write net h (drop ?room p) w1 of
                 (w', k, None) \<Rightarrow> (b1, w')
               | (w', k, Some err) \<Rightarrow> (b1\<lparr>w_err := Some err\<rparr>, w')))"
      using False Pair f by (simp add: Write_def Let_def)
    with appends_trans [OF a rest] Pair show ?thesis by simp
  qed
qed

section \<open>Sending a frame\<close>

definition frame :: "'v msgpack \<Rightarrow> u8 \<Rightarrow> bytes \<Rightarrow> gobytes \<Rightarrow> bytes" where
  "frame mp rpcType body sig = rpcType # body @ mp_EncodeSig mp sig"

definition clean :: "NetConn \<Rightarrow> bool" where
  "clean c \<longleftrightarrow> w_buf (nc_w c) = [] \<and> w_err (nc_w c) = None"

text \<open>\<open>SendMsg\<close> either succeeds, and then exactly one frame has left after all that was sent
  before, and nothing stays buffered; or it reports an error and has closed the connection.\<close>

lemma SendMsg_cases:
  assumes "SendMsg net mp c rpcType args sig w = (c', w', err)" and "clean c"
  obtains (success) body where "err = None" "mp_Encode mp args = Inr body" "clean c'"
      "nc_target c' = nc_target c" "nc_conn c' = nc_conn c" "wire_closed w' = wire_closed w"
      "\<And>h. wire_sent w' h = wire_sent w h @
         (if h = nc_conn c then frame mp rpcType body sig else [])"
  | (failure) e where "err = Some e" "wire_closed w' = nc_conn c # wire_closed w"
      "\<And>h. h \<noteq> nc_conn c \<Longrightarrow> wire_sent w' h = wire_sent w h"
proof -
  let ?h = "nc_conn c"
  obtain b1 w1 where 1: "WriteByte net ?h rpcType (nc_w c, w) = (b1, w1)" by fastforce
  have a1: "appends ?h [rpcType] (nc_w c, w) (b1, w1)"
    using WriteByte_appends [of ?h rpcType "(nc_w c, w)" net] 1 by simp
  show ?thesis
  proof (cases "w_err b1")
    case (Some e)
    show ?thesis
      by (rule failure [of e])
        (use Some assms 1 a1 in \<open>auto simp: SendMsg_def Let_def Release_def appends_def\<close>)
  next
    case e1: None
    show ?thesis
    proof (cases "mp_Encode mp args")
      case (Inl e)
      show ?thesis
      by (rule failure [of e])
        (use Inl assms 1 a1 e1 in \<open>auto simp: SendMsg_def Let_def Release_def appends_def\<close>)
    next
      case (Inr body)
      obtain b2 w2 where 2: "Write net ?h body (b1, w1) = (b2, w2)" by fastforce
      have a2: "appends ?h ([rpcType] @ body) (nc_w c, w) (b2, w2)"
        using appends_trans [OF a1] Write_appends [of ?h body "(b1, w1)" net] 2 by simp
      show ?thesis
      proof (cases "w_err b2")
        case (Some e)
        show ?thesis
      by (rule failure [of e])
        (use Some assms 1 2 a2 e1 Inr in \<open>auto simp: SendMsg_def Let_def Release_def appends_def\<close>)
      next
        case e2: None
        obtain b3 w3 where 3: "Write net ?h (mp_EncodeSig mp sig) (b2, w2) = (b3, w3)" by fastforce
        have a3: "appends ?h (([rpcType] @ body) @ mp_EncodeSig mp sig) (nc_w c, w) (b3, w3)"
          using appends_trans [OF a2] Write_appends [of ?h "mp_EncodeSig mp sig" "(b2, w2)" net] 3 by simp
        show ?thesis
        proof (cases "w_err b3")
          case (Some e)
          show ?thesis
      by (rule failure [of e])
        (use Some assms 1 2 3 a3 e1 e2 Inr in \<open>auto simp: SendMsg_def Let_def Release_def appends_def\<close>)
        next
          case e3: None
          obtain b4 w4 where 4: "Flush net ?h (b3, w3) = (b4, w4)" by fastforce
          have a4: "appends ?h (([rpcType] @ body) @ mp_EncodeSig mp sig) (nc_w c, w) (b4, w4)"
            using appends_trans [OF a3 Flush_appends [of ?h "(b3, w3)" net]] 4 by simp
          show ?thesis
          proof (cases "w_err b4")
            case (Some e)
            show ?thesis
      by (rule failure [of e])
        (use Some assms 1 2 3 4 a4 e1 e2 e3 Inr in \<open>auto simp: SendMsg_def Let_def Release_def appends_def\<close>)
          next
            case e4: None
            have "w_buf b4 = []" using Flush_empty [of net ?h "(b3, w3)"] 4 e4 by simp
            with assms 1 2 3 4 a4 e1 e2 e3 e4 Inr show ?thesis
              by (intro success [of body])
                (auto simp: SendMsg_def Let_def appends_def stream_of_def clean_def frame_def)
          qed
        qed
      qed
    qed
  qed
qed

end
