(* ===== verification/Transport_Properties.thy ===== *)
theory Transport_Properties
  imports Transport
begin

text \<open>
  What the transport promises: the connection pool is bounded and holds only connections
  that are open, idle and used by nobody; a frame that was sent is the frame that is read,
  so a stream of frames is read back message by message; \<open>broadcast\<close> gives every peer the
  frame, or stops at the first peer it fails for; the listening loop ends at its first error.
\<close>

section \<open>The connection pool\<close>

text \<open>
  A transport in use: the connections that goroutines hold between \<open>GetConn\<close> and
  \<open>ReturnConn\<close>. A new connection's handle has not been used before.
\<close>

record usage =
  u_trans :: NetworkTransport
  u_wires :: wires
  u_held :: "NetConn list"

definition pooled :: "NetworkTransport \<Rightarrow> string \<Rightarrow> NetConn list" where
  "pooled t target = (case fmlookup (connPool t) target of None \<Rightarrow> [] | Some cs \<Rightarrow> cs)"

definition fresh :: "usage \<Rightarrow> handle \<Rightarrow> bool" where
  "fresh u h \<longleftrightarrow> h \<notin> nc_conn ` set (u_held u) \<and> h \<notin> set (wire_closed (u_wires u)) \<and>
     (\<forall>target. h \<notin> nc_conn ` set (pooled (u_trans u) target))"

inductive usage_step :: "'v msgpack \<Rightarrow> usage \<Rightarrow> usage \<Rightarrow> bool" for mp :: "'v msgpack" where
  get: "GetConn net (u_trans u) target = (t, Inr c) \<Longrightarrow>
      (\<And>h. net_Dial net target = Inr h \<Longrightarrow> fresh u h) \<Longrightarrow>
      usage_step mp u (u\<lparr>u_trans := t, u_held := c # u_held u\<rparr>)"
| send_ok: "c \<in> set (u_held u) \<Longrightarrow> SendMsg net mp c tag args sig (u_wires u) = (c', w, None) \<Longrightarrow>
      usage_step mp u (u\<lparr>u_wires := w, u_held := c' # remove1 c (u_held u)\<rparr>)"
| send_err: "c \<in> set (u_held u) \<Longrightarrow>
      SendMsg net mp c tag args sig (u_wires u) = (c', w, Some err) \<Longrightarrow>
      usage_step mp u (u\<lparr>u_wires := w, u_held := remove1 c (u_held u)\<rparr>)"
| give: "c \<in> set (u_held u) \<Longrightarrow> ReturnConn net (u_trans u) c (u_wires u) = (t, w, err) \<Longrightarrow>
      usage_step mp u (u\<lparr>u_trans := t, u_wires := w, u_held := remove1 c (u_held u)\<rparr>)"
| shut: "Close (u_trans u) = Ret t \<Longrightarrow> usage_step mp u (u\<lparr>u_trans := t\<rparr>)"

definition usage_init :: "int \<Rightarrow> u8 set \<Rightarrow> usage \<Rightarrow> bool" where
  "usage_init poolSize types u \<longleftrightarrow>
     u_trans u = NewNetworkTransport poolSize types \<and> u_held u = [] \<and> wire_closed (u_wires u) = []"

text \<open>The pool within its bound, its connections clean and under their target.\<close>

definition pool_shape :: "NetworkTransport \<Rightarrow> bool" where
  "pool_shape t \<longleftrightarrow>
     (\<forall>target. int (length (pooled t target)) \<le> max 0 (maxPool t)) \<and>
     (\<forall>target c. c \<in> set (pooled t target) \<longrightarrow> nc_target c = target \<and> clean c)"

text \<open>No connection is in two places, and none in a place is closed.\<close>

definition places_ok :: "(string \<Rightarrow> handle list) \<Rightarrow> handle list \<Rightarrow> handle list \<Rightarrow> bool" where
  "places_ok pl held shut \<longleftrightarrow>
     (\<forall>a. distinct (pl a)) \<and> distinct held \<and>
     (\<forall>a b. a \<noteq> b \<longrightarrow> set (pl a) \<inter> set (pl b) = {}) \<and>
     (\<forall>a. set (pl a) \<inter> set held = {}) \<and>
     (\<forall>a. set (pl a) \<inter> set shut = {}) \<and> set held \<inter> set shut = {}"

definition places :: "NetworkTransport \<Rightarrow> string \<Rightarrow> handle list" where
  "places t a = map nc_conn (pooled t a)"

definition pool_ok :: "usage \<Rightarrow> bool" where
  "pool_ok u \<longleftrightarrow> streamCtx (u_trans u) = Some \<lparr>ctx_done = False\<rparr> \<and>
     pool_shape (u_trans u) \<and> (\<forall>c \<in> set (u_held u). clean c) \<and>
     places_ok (places (u_trans u)) (map nc_conn (u_held u)) (wire_closed (u_wires u)) \<and>
     shutdownCh (u_trans u) = shutdown (u_trans u)"

lemma places_D:
  assumes "places_ok pl held shut"
  shows "distinct (pl a)" "distinct held" "a \<noteq> b \<Longrightarrow> set (pl a) \<inter> set (pl b) = {}"
    "set (pl a) \<inter> set held = {}" "set (pl a) \<inter> set shut = {}" "set held \<inter> set shut = {}"
  using assms unfolding places_ok_def by blast+

lemma places_take:
  assumes ok: "places_ok pl held shut" and a: "pl a = hs @ [h]"
  shows "places_ok (pl(a := hs)) (h # held) shut"
  unfolding places_ok_def
proof (intro conjI allI impI)
  note D = places_D [OF ok]
  have hs: "set hs \<subseteq> set (pl a)" "h \<in> set (pl a)" using a by auto
  show "distinct ((pl(a := hs)) b)" for b using D(1) [of a] D(1) [of b] a by simp
  show "distinct (h # held)" using D(2) D(4) [of a] hs by auto
  show "set ((pl(a := hs)) b) \<inter> set ((pl(a := hs)) b') = {}" if "b \<noteq> b'" for b b'
    using D(3) [OF that] hs a by (cases "b = a"; cases "b' = a") auto
  show "set ((pl(a := hs)) b) \<inter> set (h # held) = {}" for b
  proof (cases "b = a")
    case True
    with D(1) [of a] D(4) [of a] a show ?thesis by auto
  next
    case False
    with D(3) [OF False] D(4) [of b] hs show ?thesis by auto
  qed
  show "set ((pl(a := hs)) b) \<inter> set shut = {}" for b
    using D(5) [of b] D(5) [of a] hs by (cases "b = a") auto
  show "set (h # held) \<inter> set shut = {}" using D(6) D(5) [of a] hs by auto
qed

lemma places_new:
  assumes ok: "places_ok pl held shut" and h: "h \<notin> set held" "h \<notin> set shut" "\<And>a. h \<notin> set (pl a)"
  shows "places_ok pl (h # held) shut"
  unfolding places_ok_def using places_D [OF ok] h by simp

lemma places_put:
  assumes ok: "places_ok pl held shut" and h: "h \<in> set held"
  shows "places_ok (pl(a := pl a @ [h])) (remove1 h held) shut"
  unfolding places_ok_def
proof (intro conjI allI impI)
  note D = places_D [OF ok]
  have held: "set (remove1 h held) = set held - {h}" using D(2) by (rule set_remove1_eq)
  have h': "h \<notin> set (pl b)" for b using D(4) [of b] h by blast
  show "distinct ((pl(a := pl a @ [h])) b)" for b using D(1) [of b] h' by auto
  show "distinct (remove1 h held)" using D(2) by simp
  show "set ((pl(a := pl a @ [h])) b) \<inter> set ((pl(a := pl a @ [h])) b') = {}" if "b \<noteq> b'" for b b'
    using D(3) [OF that] h' that by (cases "b = a"; cases "b' = a") auto
  show "set ((pl(a := pl a @ [h])) b) \<inter> set (remove1 h held) = {}" for b
    unfolding held using D(4) [of b] by (cases "b = a") auto
  show "set ((pl(a := pl a @ [h])) b) \<inter> set shut = {}" for b
    using D(5) [of b] D(6) h by (cases "b = a") auto
  show "set (remove1 h held) \<inter> set shut = {}" unfolding held using D(6) by blast
qed

lemma places_close:
  assumes ok: "places_ok pl held shut" and h: "h \<in> set held"
  shows "places_ok pl (remove1 h held) (h # shut)"
  unfolding places_ok_def
proof (intro conjI allI impI)
  note D = places_D [OF ok]
  have held: "set (remove1 h held) = set held - {h}" using D(2) by (rule set_remove1_eq)
  show "distinct (pl b)" for b by (rule D(1))
  show "distinct (remove1 h held)" using D(2) by simp
  show "set (pl b) \<inter> set (pl b') = {}" if "b \<noteq> b'" for b b' using that by (rule D(3))
  show "set (pl b) \<inter> set (remove1 h held) = {}" for b unfolding held using D(4) [of b] by blast
  show "set (pl b) \<inter> set (h # shut) = {}" for b using D(4) [of b] D(5) [of b] h by auto
  show "set (remove1 h held) \<inter> set (h # shut) = {}" unfolding held using D(6) by auto
qed

lemma GetConn_cases:
  assumes "GetConn net t target = (t', Inr c)"
  obtains (reused) cs where "pooled t target = cs @ [c]"
      "t' = t\<lparr>connPool := fmupd target cs (connPool t)\<rparr>"
  | (dialled) h where "pooled t target = []" "t' = t" "net_Dial net target = Inr h"
      "c = \<lparr>nc_target = target, nc_conn = h, nc_w = \<lparr>w_buf = [], w_err = None\<rparr>\<rparr>"
proof (cases "pooled t target")
  case Nil
  then have "t' = t \<and> dialConn net target = Inr c"
    using assms by (auto simp: GetConn_def pooled_def split: option.splits)
  with Nil dialled show ?thesis by (auto simp: dialConn_def split: sum.splits)
next
  case (Cons d ds)
  then have "fmlookup (connPool t) target = Some (d # ds)"
    by (auto simp: pooled_def split: option.splits)
  with assms have "c = last (d # ds)" "t' = t\<lparr>connPool := fmupd target (butlast (d # ds)) (connPool t)\<rparr>"
    by (auto simp: GetConn_def)
  with Cons show ?thesis by (intro reused [of "butlast (d # ds)"]) simp_all
qed

lemma pooled_fmupd [simp]:
  "pooled (t\<lparr>connPool := fmupd target cs (connPool t)\<rparr>) target' = (if target' = target then cs else pooled t target')"
  by (simp add: pooled_def)

lemma pooled_shut [simp]:
  "pooled (t\<lparr>shutdownCh := a, streamClosed := b, shutdown := d\<rparr>) = pooled t"
  by (rule ext) (simp add: pooled_def)

lemma places_fmupd [simp]:
  "places (t\<lparr>connPool := fmupd target cs (connPool t)\<rparr>) = (places t)(target := map nc_conn cs)"
  by (rule ext) (simp add: places_def)

lemma places_shut [simp]:
  "places (t\<lparr>shutdownCh := a, streamClosed := b, shutdown := d\<rparr>) = places t"
  by (rule ext) (simp add: places_def)

lemma shape_fmupd:
  "pool_shape t \<Longrightarrow> int (length cs) \<le> max 0 (maxPool t) \<Longrightarrow>
   (\<And>c. c \<in> set cs \<Longrightarrow> nc_target c = target \<and> clean c) \<Longrightarrow>
   pool_shape (t\<lparr>connPool := fmupd target cs (connPool t)\<rparr>)"
  by (auto simp: pool_shape_def)

lemma pool_ok_get:
  assumes ok: "pool_ok u" and get: "GetConn net (u_trans u) target = (t, Inr c)"
    and new: "\<And>h. net_Dial net target = Inr h \<Longrightarrow> fresh u h"
  shows "pool_ok (u\<lparr>u_trans := t, u_held := c # u_held u\<rparr>)"
  using get
proof (cases rule: GetConn_cases)
  case (dialled h)
  then have f: "fresh u h" by (intro new)
  have "places_ok (places (u_trans u)) (h # map nc_conn (u_held u)) (wire_closed (u_wires u))"
    by (rule places_new) (use ok f in \<open>auto simp: pool_ok_def fresh_def places_def\<close>)
  with ok dialled show ?thesis by (simp add: pool_ok_def clean_def)
next
  case (reused cs)
  have shape: "pool_shape (u_trans u)" using ok by (simp add: pool_ok_def)
  then have "int (length (pooled (u_trans u) target)) \<le> max 0 (maxPool (u_trans u))"
    and mem: "\<And>d. d \<in> set (pooled (u_trans u) target) \<Longrightarrow> nc_target d = target \<and> clean d"
    by (simp_all add: pool_shape_def)
  then have "pool_shape t"
    unfolding reused(2) by (intro shape_fmupd [OF shape]) (use reused(1) in auto)
  moreover have "places_ok ((places (u_trans u))(target := map nc_conn cs)) (nc_conn c # map nc_conn (u_held u))
      (wire_closed (u_wires u))"
    by (rule places_take) (use ok reused in \<open>simp_all add: pool_ok_def places_def\<close>)
  ultimately show ?thesis
    using ok reused mem [of c] by (simp add: pool_ok_def)
qed

lemma map_remove1_conn:
  "distinct (map nc_conn cs) \<Longrightarrow> c \<in> set cs \<Longrightarrow> map nc_conn (remove1 c cs) = remove1 (nc_conn c) (map nc_conn cs)"
proof (induction cs)
  case (Cons a cs)
  then show ?case by (cases "c = a") (auto simp: image_iff)
qed simp

lemma pool_ok_send:
  assumes ok: "pool_ok u" and c: "c \<in> set (u_held u)"
    and send: "SendMsg net mp c tag args sig (u_wires u) = (c', w, err)"
  shows "if err = None then pool_ok (u\<lparr>u_wires := w, u_held := c' # remove1 c (u_held u)\<rparr>)
    else pool_ok (u\<lparr>u_wires := w, u_held := remove1 c (u_held u)\<rparr>)"
proof -
  have d: "distinct (map nc_conn (u_held u))" using ok by (simp add: pool_ok_def places_ok_def)
  note r = map_remove1_conn [OF d c]
  have "clean c" using ok c by (simp add: pool_ok_def)
  with send show ?thesis
  proof (cases rule: SendMsg_cases)
    case (success body)
    have "places_ok (places (u_trans u)) (nc_conn c # remove1 (nc_conn c) (map nc_conn (u_held u))) (wire_closed (u_wires u))"
      using ok c by (auto simp: pool_ok_def places_ok_def)
    with success ok r show ?thesis
      by (auto simp: pool_ok_def dest: notin_set_remove1)
  next
    case (failure e)
    have "places_ok (places (u_trans u)) (remove1 (nc_conn c) (map nc_conn (u_held u))) (nc_conn c # wire_closed (u_wires u))"
      by (rule places_close) (use ok c in \<open>auto simp: pool_ok_def\<close>)
    with failure ok r show ?thesis
      by (auto simp: pool_ok_def dest: notin_set_remove1)
  qed
qed

lemma ReturnConn_pooled:
  "ReturnConn net t c w =
     (if \<not> IsShutdown t \<and> int (length (pooled t (nc_target c))) < maxPool t
      then (t\<lparr>connPool := fmupd (nc_target c) (pooled t (nc_target c) @ [c]) (connPool t)\<rparr>, w, None)
      else (t, w\<lparr>wire_closed := nc_conn c # wire_closed w\<rparr>, net_Close net (nc_conn c)))"
  by (simp add: ReturnConn_def pooled_def Let_def Release_def)

lemma ReturnConn_cases:
  assumes "ReturnConn net t c w = (t', w', err)"
  obtains (kept) "\<not> IsShutdown t" "int (length (pooled t (nc_target c))) < maxPool t" "w' = w"
      "t' = t\<lparr>connPool := fmupd (nc_target c) (pooled t (nc_target c) @ [c]) (connPool t)\<rparr>" "err = None"
  | (released) "t' = t" "w' = w\<lparr>wire_closed := nc_conn c # wire_closed w\<rparr>"
proof (cases "\<not> IsShutdown t \<and> int (length (pooled t (nc_target c))) < maxPool t")
  case True
  with assms show ?thesis by (intro kept) (auto simp: ReturnConn_pooled)
next
  case False
  have "t' = t \<and> w' = w\<lparr>wire_closed := nc_conn c # wire_closed w\<rparr>"
    using assms unfolding ReturnConn_pooled if_not_P [OF False] by simp
  then show ?thesis by (intro released) simp_all
qed

lemma pool_ok_give:
  assumes ok: "pool_ok u" and c: "c \<in> set (u_held u)"
    and give: "ReturnConn net (u_trans u) c (u_wires u) = (t, w, err)"
  shows "pool_ok (u\<lparr>u_trans := t, u_wires := w, u_held := remove1 c (u_held u)\<rparr>)"
proof -
  have d: "distinct (map nc_conn (u_held u))" using ok by (simp add: pool_ok_def places_ok_def)
  note r = map_remove1_conn [OF d c]
  have h: "nc_conn c \<in> set (map nc_conn (u_held u))" using c by simp
  have places: "places_ok (places (u_trans u)) (map nc_conn (u_held u)) (wire_closed (u_wires u))"
    using ok by (simp add: pool_ok_def)
  show ?thesis
    using give
  proof (cases rule: ReturnConn_cases)
    case kept
    let ?key = "nc_target c"
    have shape: "pool_shape (u_trans u)" and cl: "clean c" using ok c by (simp_all add: pool_ok_def)
    then have "pool_shape t" unfolding kept
      by (intro shape_fmupd) (use kept in \<open>auto simp: pool_shape_def\<close>)
    with places_put [OF places h, of ?key] kept ok r show ?thesis
      by (auto simp: pool_ok_def places_def dest: notin_set_remove1)
  next
    case released
    with places_close [OF places h] ok r show ?thesis
      by (auto simp: pool_ok_def dest: notin_set_remove1)
  qed
qed

lemma pool_ok_step: "pool_ok u \<Longrightarrow> usage_step mp u v \<Longrightarrow> pool_ok v"
proof (erule usage_step.cases, goal_cases)
  case (1 net u target t c)
  then show ?case using pool_ok_get by blast
next
  case (2 c u net tag args sig c' w)
  then show ?case using pool_ok_send [of u c net mp tag args sig c' w None] by simp
next
  case (3 c u net tag args sig c' w err)
  then show ?case using pool_ok_send [of u c net mp tag args sig c' w "Some err"] by simp
next
  case (4 c u net t w err)
  then show ?case using pool_ok_give by blast
next
  case (5 u t)
  then show ?case
    by (auto simp: Close_def pool_ok_def pool_shape_def split: if_splits)
qed

interpretation pool_use: inductive_invariant "usage_init poolSize types" "usage_step mp" pool_ok for poolSize types mp
proof
  fix u assume "usage_init poolSize types u"
  then show "pool_ok u"
    by (simp add: usage_init_def NewNetworkTransport_eq pool_ok_def pool_shape_def places_ok_def
        places_def pooled_def)
qed (rule pool_ok_step)

text \<open>C22: However many goroutines get, use and return connections, and whatever the network
  does, a pooled connection is filed under its target, has nothing buffered and no error, is
  not closed and is held by nobody; a target's pool stays within \<open>maxPool\<close>, and no
  connection is pooled twice.\<close>

theorem pool_holds_idle_connections:
  assumes "reachable (usage_init poolSize types) (usage_step mp) u"
  shows "int (length (pooled (u_trans u) target)) \<le> max 0 (maxPool (u_trans u)) \<and>
    distinct (map nc_conn (pooled (u_trans u) target)) \<and>
    list_all (\<lambda>c. nc_target c = target \<and> clean c \<and> nc_conn c \<notin> set (wire_closed (u_wires u)) \<and>
      nc_conn c \<notin> set (map nc_conn (u_held u))) (pooled (u_trans u) target)"
proof -
  have ok: "pool_ok u" by (rule pool_use.inv_reachable [OF assms])
  then have "places_ok (places (u_trans u)) (map nc_conn (u_held u)) (wire_closed (u_wires u))"
    by (simp add: pool_ok_def)
  note D = places_D(1) [OF this, of target] places_D(4) [OF this, of target] places_D(5) [OF this, of target]
  have "nc_conn c \<notin> set (wire_closed (u_wires u)) \<and> nc_conn c \<notin> set (map nc_conn (u_held u))"
    if "c \<in> set (pooled (u_trans u) target)" for c
  proof -
    have "nc_conn c \<in> set (places (u_trans u) target)" using that by (simp add: places_def)
    with D(2,3) show ?thesis by blast
  qed
  with ok D(1) show ?thesis by (auto simp: pool_ok_def pool_shape_def list_all_iff places_def)
qed

text \<open>A network with one peer: every dial gives connection 7 and every write succeeds.\<close>

definition quiet_net :: net where
  "quiet_net = \<lparr>net_Dial = (\<lambda>target. Inr 7), net_Write = (\<lambda>h s p. Wrote), net_Close = (\<lambda>h. None)\<rparr>"

definition quiet_wires :: wires where
  "quiet_wires = \<lparr>wire_sent = (\<lambda>h. []), wire_closed = []\<rparr>"

definition quiet_conn :: NetConn where
  "quiet_conn = \<lparr>nc_target = ''peer'', nc_conn = 7, nc_w = \<lparr>w_buf = [], w_err = None\<rparr>\<rparr>"

text \<open>A codec for single bytes, with a signature's length in unary before it.\<close>

definition byte_codec :: "u8 msgpack" where
  "byte_codec =
     \<lparr>mp_Encode = (\<lambda>v. Inr [v]),
      mp_EncodeSig = (\<lambda>s. case s of None \<Rightarrow> [0] | Some s \<Rightarrow> replicate (length s) 1 @ [0] @ s),
      mp_Decode = (\<lambda>tag bs. case bs of [] \<Rightarrow> Inl ErrEOF | b # _ \<Rightarrow> Inr (b, 1)),
      mp_DecodeSig = (\<lambda>bs. let n = length (takeWhile (\<lambda>b. b = 1) bs) in
         Inr (Some (take n (drop (n + 1) bs)), 2 * n + 1))\<rparr>"

theorem pool_holds_idle_connections_witness:
  "\<exists>u. reachable (usage_init 1 {0}) (usage_step byte_codec) u \<and> pooled (u_trans u) ''peer'' = [quiet_conn] \<and>
     int (length (pooled (u_trans u) ''peer'')) \<le> max 0 (maxPool (u_trans u))"
proof -
  let ?t = "NewNetworkTransport 1 {0}"
  let ?u = "\<lparr>u_trans = ?t, u_wires = quiet_wires, u_held = []\<rparr>"
  let ?t' = "?t\<lparr>connPool := fmupd ''peer'' [quiet_conn] (connPool ?t)\<rparr>"
  have 0: "usage_init 1 {0} ?u" by (simp add: usage_init_def quiet_wires_def)
  have "usage_step byte_codec ?u (?u\<lparr>u_trans := ?t, u_held := quiet_conn # u_held ?u\<rparr>)"
    by (rule usage_step.get [where net = quiet_net and target = "''peer''"])
      (simp_all add: GetConn_def dialConn_def quiet_net_def quiet_conn_def NewNetworkTransport_eq
        fresh_def quiet_wires_def pooled_def)
  then have 1: "usage_step byte_codec ?u (?u\<lparr>u_held := [quiet_conn]\<rparr>)" by simp
  have "usage_step byte_codec (?u\<lparr>u_held := [quiet_conn]\<rparr>)
      (?u\<lparr>u_held := [quiet_conn]\<rparr>\<lparr>u_trans := ?t', u_wires := quiet_wires,
        u_held := remove1 quiet_conn (u_held (?u\<lparr>u_held := [quiet_conn]\<rparr>))\<rparr>)"
    by (rule usage_step.give [where net = quiet_net and err = None])
      (simp_all add: ReturnConn_pooled pooled_def quiet_conn_def NewNetworkTransport_eq IsShutdown_def)
  then have 2: "usage_step byte_codec (?u\<lparr>u_held := [quiet_conn]\<rparr>) \<lparr>u_trans = ?t', u_wires = quiet_wires, u_held = []\<rparr>"
    by simp
  have r: "reachable (usage_init 1 {0}) (usage_step byte_codec) \<lparr>u_trans = ?t', u_wires = quiet_wires, u_held = []\<rparr>"
    using 0 1 2 by (blast intro: reachable.intros)
  have "pooled ?t' ''peer'' = [quiet_conn]" by simp
  with r pool_holds_idle_connections [OF r, of "''peer''"] show ?thesis by fastforce
qed

section \<open>Frames\<close>

text \<open>
  What go-msgpack promises for the values of a set: what it encodes it decodes as the type of
  their tag, taking exactly the bytes it had written.
\<close>

definition msgpack_ok :: "'v msgpack \<Rightarrow> ('v \<Rightarrow> u8) \<Rightarrow> 'v set \<Rightarrow> bool" where
  "msgpack_ok mp tag V \<longleftrightarrow>
     (\<forall>v \<in> V. \<exists>bs. mp_Encode mp v = Inr bs \<and>
        (\<forall>rest. mp_Decode mp (tag v) (bs @ rest) = Inr (v, length bs))) \<and>
     (\<forall>s rest. mp_DecodeSig mp (mp_EncodeSig mp (Some s) @ rest) =
        Inr (Some s, length (mp_EncodeSig mp (Some s))))"

lemma handleMsg_frame:
  assumes mp: "msgpack_ok mp tag V" "v \<in> V" "mp_Encode mp v = Inr body"
    and t: "tag v \<in> reflectedTypes t" "\<not> IsShutdown t"
  shows "handleMsg mp t stop d (frame mp (tag v) body (Some s) @ rest) = Inr (\<lparr>Msg = v, Sig = Some s\<rparr>, rest)"
proof -
  have "mp_Decode mp (tag v) (body @ mp_EncodeSig mp (Some s) @ rest) = Inr (v, length body)"
    using mp unfolding msgpack_ok_def by fastforce
  moreover have "mp_DecodeSig mp (mp_EncodeSig mp (Some s) @ rest) =
      Inr (Some s, length (mp_EncodeSig mp (Some s)))"
    using mp(1) unfolding msgpack_ok_def by blast
  ultimately show ?thesis using t by (simp add: handleMsg_def frame_def)
qed

fun frames :: "'v msgpack \<Rightarrow> ('v \<Rightarrow> u8) \<Rightarrow> ('v \<times> bytes) list \<Rightarrow> bytes" where
  "frames mp tag [] = []"
| "frames mp tag ((v, s) # ms) =
     (case mp_Encode mp v of Inl e \<Rightarrow> [] | Inr body \<Rightarrow> frame mp (tag v) body (Some s)) @ frames mp tag ms"

lemma handleConn_frames:
  assumes "msgpack_ok mp tag V" and "\<not> IsShutdown t" and "\<not> ctx_done ctx"
  shows "set (map fst ms) \<subseteq> V \<Longrightarrow> tag ` set (map fst ms) \<subseteq> reflectedTypes t \<Longrightarrow>
    handleConn_loop net mp t h stop (\<lambda>i. ctx) down i (frames mp tag ms) (\<lparr>w_buf = [], w_err = None\<rparr>, w) =
      (map (\<lambda>(v, s). \<lparr>Msg = v, Sig = Some s\<rparr>) ms, Some stop, w)"
proof (induction ms arbitrary: i)
  case Nil
  show ?case using assms(3) by (subst handleConn_loop.simps) (simp add: handleMsg_def)
next
  case (Cons m ms)
  obtain v s where m: "m = (v, s)" by fastforce
  with Cons.prems assms(1) obtain body where body: "mp_Encode mp v = Inr body"
    unfolding msgpack_ok_def by fastforce
  have "handleMsg mp t stop (down i) (frames mp tag (m # ms)) =
      Inr (\<lparr>Msg = v, Sig = Some s\<rparr>, frames mp tag ms)"
    using handleMsg_frame [OF assms(1) _ body _ assms(2)] m body Cons.prems by simp
  with Cons m assms(3) show ?case
    by (subst handleConn_loop.simps) (simp add: Flush_def del: frames.simps)
qed

text \<open>Messages sent one after the other on a connection, up to the first error.\<close>

fun send_all ::
  "net \<Rightarrow> 'v msgpack \<Rightarrow> ('v \<Rightarrow> u8) \<Rightarrow> NetConn \<Rightarrow> ('v \<times> bytes) list \<Rightarrow> wires \<Rightarrow> NetConn \<times> wires \<times> error option"
where
  "send_all net mp tag c [] w = (c, w, None)"
| "send_all net mp tag c ((v, s) # ms) w =
     (case SendMsg net mp c (tag v) v (Some s) w of
        (c', w', Some err) \<Rightarrow> (c', w', Some err)
      | (c', w', None) \<Rightarrow> send_all net mp tag c' ms w')"

lemma send_all_sent:
  "send_all net mp tag c ms w = (c', w', None) \<Longrightarrow> clean c \<Longrightarrow>
   wire_sent w' (nc_conn c) = wire_sent w (nc_conn c) @ frames mp tag ms"
proof (induction net mp tag c ms w arbitrary: c' w' rule: send_all.induct)
  case (2 net mp tag c v s ms w)
  obtain c1 w1 err where send: "SendMsg net mp c (tag v) v (Some s) w = (c1, w1, err)"
    by (cases "SendMsg net mp c (tag v) v (Some s) w") auto
  with "2.prems"(1) have none: "err = None" and rest: "send_all net mp tag c1 ms w1 = (c', w', None)"
    by (auto split: option.splits)
  show ?case
    using send "2.prems"(2)
  proof (cases rule: SendMsg_cases)
    case (success body)
    with "2.IH" [OF send [symmetric] refl none rest] show ?thesis by simp
  qed (use none in simp)
qed simp

text \<open>C21: What one node sends another receives: if all the sends on a connection succeed, then
  the receiving node's \<open>handleConn\<close> hands over exactly those messages with their signatures,
  in the order they were sent, and then closes the connection, having written nothing to it.\<close>

theorem sent_messages_are_received:
  assumes "send_all net mp tag c ms w = (c', w', None)" and "clean c"
    and "wire_sent w (nc_conn c) = []"
    and "msgpack_ok mp tag V" and "set (map fst ms) \<subseteq> V"
    and "tag ` V \<subseteq> reflectedTypes t" and "\<not> IsShutdown t"
    and "GetStreamContext t = Some ctx" and "\<not> ctx_done ctx"
  shows "handleConn net' mp t ErrEOF (\<lambda>i. ctx) down h (wire_sent w' (nc_conn c)) wr =
    (map (\<lambda>(v, s). \<lparr>Msg = v, Sig = Some s\<rparr>) ms, wr\<lparr>wire_closed := h # wire_closed wr\<rparr>)"
proof -
  have "wire_sent w' (nc_conn c) = frames mp tag ms"
    using send_all_sent [OF assms(1,2)] assms(3) by simp
  moreover have "tag ` set (map fst ms) \<subseteq> reflectedTypes t" using assms(5,6) by blast
  ultimately show ?thesis using handleConn_frames [OF assms(4,7,9,5)] by (simp add: handleConn_def)
qed

lemma takeWhile_replicate_stop:
  "takeWhile (\<lambda>b. b = x) (replicate n x @ y # zs) = replicate n x" if "y \<noteq> x"
  using that by (induction n) simp_all

lemma byte_codec_ok: "msgpack_ok byte_codec (\<lambda>v. v) V"
  by (simp add: msgpack_ok_def byte_codec_def takeWhile_replicate_stop Let_def)

theorem sent_messages_are_received_witness:
  "send_all quiet_net byte_codec (\<lambda>v. v) quiet_conn [(0, [7, 8]), (1, [9])] quiet_wires =
     (quiet_conn, quiet_wires\<lparr>wire_sent := (\<lambda>h. [])(7 := [0, 0, 1, 1, 0, 7, 8, 1, 1, 1, 0, 9])\<rparr>, None) \<and>
   handleConn quiet_net byte_codec (NewNetworkTransport 1 {0, 1}) ErrEOF (\<lambda>i. \<lparr>ctx_done = False\<rparr>) (\<lambda>i. False) 9
      [0, 0, 1, 1, 0, 7, 8, 1, 1, 1, 0, 9] quiet_wires =
     ([\<lparr>Msg = 0, Sig = Some [7, 8]\<rparr>, \<lparr>Msg = 1, Sig = Some [9]\<rparr>], quiet_wires\<lparr>wire_closed := [9]\<rparr>)" (is "?send \<and> ?recv")
proof -
  have send: ?send
    by (simp add: SendMsg_def WriteByte_def Write_def Flush_def conn_Write_def quiet_net_def quiet_conn_def
        quiet_wires_def byte_codec_def buf_size_def Let_def)
  have "?recv"
    using sent_messages_are_received [OF send, of "{0, 1}" "NewNetworkTransport 1 {0, 1}" "\<lparr>ctx_done = False\<rparr>"
      quiet_net "\<lambda>i. False" 9 quiet_wires]
    by (simp add: byte_codec_ok clean_def quiet_conn_def quiet_wires_def NewNetworkTransport_eq IsShutdown_def
        GetStreamContext_def getStreamContext_def)
  with send show ?thesis by blast
qed

section \<open>Broadcasting\<close>

text \<open>The addresses a broadcast goes to, in its order.\<close>

definition targets :: "(string, int) fmap \<Rightarrow> string set \<Rightarrow> (string \<times> string) list \<Rightarrow> string list" where
  "targets ports exc peers =
     filter (\<lambda>a. a \<notin> exc) (map (\<lambda>(name, addr). addr @ '':'' @ port_string ports name) peers)"

lemma targets_simps [simp]:
  "targets ports exc [] = []"
  "targets ports exc ((name, addr) # peers) =
     (if addr @ '':'' @ port_string ports name \<in> exc then targets ports exc peers
      else (addr @ '':'' @ port_string ports name) # targets ports exc peers)"
  by (simp_all add: targets_def)

text \<open>A connection that leads to an address: pooled for it or dialled.\<close>

definition leads_to :: "net \<Rightarrow> NetworkTransport \<Rightarrow> string \<Rightarrow> handle \<Rightarrow> bool" where
  "leads_to net t a h \<longleftrightarrow> h \<in> set (places t a) \<or> net_Dial net a = Inr h"

lemma places_pooled_subset:
  "pooled t a = cs @ [c] \<Longrightarrow> set (places (t\<lparr>connPool := fmupd a cs (connPool t)\<rparr>) b) \<subseteq> set (places t b)"
  by (auto simp: places_def)

text \<open>A connection taken, used without a failure and given back: it led to the address, the
  pool stays in shape, and every connection in it led to its address before.\<close>

lemma GetConn_shape:
  assumes "GetConn net t a = (t1, Inr c)" and shape: "pool_shape t"
  shows "clean c \<and> nc_target c = a \<and> leads_to net t a (nc_conn c) \<and> pool_shape t1 \<and>
    (\<forall>b h. leads_to net t1 b h \<longrightarrow> leads_to net t b h)"
  using assms(1)
proof (cases rule: GetConn_cases)
  case (reused cs)
  have "int (length (pooled t a)) \<le> max 0 (maxPool t)"
    and mem: "\<And>d. d \<in> set (pooled t a) \<Longrightarrow> nc_target d = a \<and> clean d"
    using shape by (simp_all add: pool_shape_def)
  then have "pool_shape t1"
    unfolding reused(2) by (intro shape_fmupd [OF shape]) (use reused(1) in auto)
  moreover have "nc_conn c \<in> set (places t a)" using reused by (simp add: places_def)
  moreover have "set (places t1 b) \<subseteq> set (places t b)" for b
    unfolding reused(2) by (rule places_pooled_subset [OF reused(1)])
  moreover have "nc_target c = a \<and> clean c" by (rule mem) (simp add: reused)
  ultimately show ?thesis unfolding leads_to_def by blast
next
  case (dialled h)
  with shape show ?thesis by (simp add: clean_def leads_to_def)
qed

lemma ReturnConn_shape:
  assumes "ReturnConn net t c w = (t', w', err)" and shape: "pool_shape t" and "clean c"
  shows "pool_shape t' \<and> wire_sent w' = wire_sent w \<and>
    (\<forall>b h. leads_to net t' b h \<longrightarrow> leads_to net t b h \<or> (b = nc_target c \<and> h = nc_conn c))"
  using assms(1)
proof (cases rule: ReturnConn_cases)
  case kept
  have "pool_shape t'" unfolding kept
    by (intro shape_fmupd [OF shape]) (use kept assms in \<open>auto simp: pool_shape_def\<close>)
  with kept show ?thesis by (auto simp: leads_to_def places_def split: if_splits)
qed (use shape in auto)

lemma broadcast_loop_sends:
  assumes "broadcast_loop net mp ports exc tag msg sig peers t w = (t', w', None)" and "pool_shape t"
  shows "\<exists>hs body. list_all2 (leads_to net t) (targets ports exc peers) hs \<and>
    (hs \<noteq> [] \<longrightarrow> mp_Encode mp msg = Inr body) \<and>
    (\<forall>h. wire_sent w' h = wire_sent w h @ concat (replicate (count_list hs h) (frame mp tag body sig)))"
  using assms
proof (induction net mp ports exc tag msg sig peers t w rule: broadcast_loop.induct)
  case (2 net mp ports exc tag msg sig name addr peers t w)
  let ?a = "addr @ '':'' @ port_string ports name"
  show ?case
  proof (cases "?a \<in> exc")
    case True
    with 2 show ?thesis by simp
  next
    case False
    from "2.prems"(1) False obtain t1 c where get: "GetConn net t ?a = (t1, Inr c)"
      by (auto simp: Let_def split: prod.splits sum.splits)
    with "2.prems"(1) False obtain c' w1 where send: "SendMsg net mp c tag msg sig w = (c', w1, None)"
      by (auto simp: Let_def split: prod.splits option.splits)
    with get "2.prems"(1) False obtain t2 w2 where ret: "ReturnConn net t1 c' w1 = (t2, w2, None)"
      and rest: "broadcast_loop net mp ports exc tag msg sig peers t2 w2 = (t', w', None)"
      by (auto simp: Let_def split: prod.splits option.splits)
    note g = GetConn_shape [OF get "2.prems"(2)]
    from send g obtain body where body: "mp_Encode mp msg = Inr body" and c': "clean c'"
      "nc_target c' = ?a" "nc_conn c' = nc_conn c"
      and w1: "\<And>h. wire_sent w1 h = wire_sent w h @ (if h = nc_conn c then frame mp tag body sig else [])"
      by (auto elim: SendMsg_cases)
    note r = ReturnConn_shape [OF ret _ c'(1)]
    have shape: "pool_shape t2" using r g by blast
    obtain hs body' where hs: "list_all2 (leads_to net t2) (targets ports exc peers) hs"
        "hs \<noteq> [] \<longrightarrow> mp_Encode mp msg = Inr body'"
        "\<And>h. wire_sent w' h = wire_sent w2 h @ concat (replicate (count_list hs h) (frame mp tag body' sig))"
      using "2.IH"(2) [OF refl False get [symmetric] refl send [symmetric] refl refl ret [symmetric] refl refl rest shape] by blast
    have "leads_to net t2 b h \<Longrightarrow> leads_to net t b h" for b h using r g c' by metis
    then have "list_all2 (leads_to net t) (targets ports exc peers) hs"
      using hs(1) by (auto elim: list_all2_mono)
    with g False have "list_all2 (leads_to net t) (targets ports exc ((name, addr) # peers)) (nc_conn c # hs)" by simp
    moreover have "wire_sent w' h = wire_sent w h @ concat (replicate (count_list (nc_conn c # hs) h) (frame mp tag body sig))" for h
      using hs(2,3) w1 r g body by (cases "hs = []") auto
    ultimately show ?thesis using body by blast
  qed
qed simp

lemma broadcast_sends:
  assumes "broadcast c net mp n msg exc peers t w = Ret (t', w', None)" and "pool_shape t"
  obtains sig hs body where "broadcast_sig c n msg = Ret (Inr sig)"
    "list_all2 (leads_to net t) (targets (clusterPort n) exc peers) hs"
    "hs \<noteq> [] \<longrightarrow> mp_Encode mp msg = Inr body"
    "\<forall>h. wire_sent w' h = wire_sent w h @
       concat (replicate (count_list hs h) (frame mp (msg_tag msg) body (Some sig)))"
proof -
  from assms(1) obtain sig where sig: "broadcast_sig c n msg = Ret (Inr sig)"
    and loop: "broadcast_loop net mp (clusterPort n) exc (msg_tag msg) msg (Some sig) peers t w = (t', w', None)"
    by (cases "broadcast_sig c n msg") (auto simp: broadcast_def split: sum.splits)
  from broadcast_loop_sends [OF loop assms(2)] sig that show ?thesis by blast
qed

lemma broadcast_loop_append:
  "broadcast_loop net mp ports exc tag msg sig (xs @ ys) t w =
     (case broadcast_loop net mp ports exc tag msg sig xs t w of
        (t1, w1, None) \<Rightarrow> broadcast_loop net mp ports exc tag msg sig ys t1 w1
      | r \<Rightarrow> r)"
  by (induction net mp ports exc tag msg sig xs t w rule: broadcast_loop.induct)
    (simp_all add: Let_def split: prod.splits sum.splits option.splits)

text \<open>The peers that come after one that cannot be reached get nothing.\<close>

lemma broadcast_loop_stops:
  assumes "broadcast_loop net mp ports exc tag msg sig xs t w = (t1, w1, None)"
    and "addr @ '':'' @ port_string ports name = a" "a \<notin> exc" "pooled t1 a = []" "net_Dial net a = Inl err"
  shows "broadcast_loop net mp ports exc tag msg sig (xs @ (name, addr) # ys) t w = (t1, w1, Some err)"
proof -
  have "GetConn net t1 a = (t1, Inl err)"
    using assms(4,5) by (auto simp: GetConn_def pooled_def dialConn_def split: option.splits list.splits)
  with assms(1-3) show ?thesis by (simp add: broadcast_loop_append)
qed

section \<open>Listening and closing\<close>

text \<open>C26: While the transport is not shut down, \<open>listen\<close> starts a handler, with the stream's
  context, for each connection up to the first error of \<open>Accept\<close> and then returns: it never sleeps and never tries again.\<close>

theorem listen_ends_at_first_error:
  assumes "list_all (\<lambda>(t, a, timer). \<not> IsShutdown t) rounds"
  shows "listen d rounds =
    (map (\<lambda>(t, a, timer). case a of Accepted h \<Rightarrow> (GetStreamContext t, h))
       (takeWhile (\<lambda>(t, a, timer). \<exists>h. a = Accepted h) rounds),
     list_all (\<lambda>(t, a, timer). \<exists>h. a = Accepted h) rounds)"
  using assms
proof (induction rounds arbitrary: d)
  case (Cons r rounds)
  obtain t a timer where "r = (t, a, timer)" by (cases r)
  with Cons show ?case by (cases a) (auto simp: listen_round_def GetStreamContext_def Let_def)
qed simp

theorem listen_ends_at_first_error_witness:
  "listen 0 [(NewNetworkTransport 1 {}, Accepted 4, True), (NewNetworkTransport 1 {}, AcceptFailed ErrEOF, True),
     (NewNetworkTransport 1 {}, Accepted 5, True)] = ([(Some \<lparr>ctx_done = False\<rparr>, 4)], False)"
  by (subst listen_ends_at_first_error)
    (simp_all add: IsShutdown_def NewNetworkTransport_eq GetStreamContext_def getStreamContext_def)

text \<open>The back-off of \<open>listen\<close> is confined to a transport that has been shut down, and its
  delays stay within 5 ms and 1 s: a round that sleeps does so for its delay, which doubles
  from \<open>baseDelay\<close> on up to \<open>maxDelay\<close>.\<close>

theorem listen_delay_bounded:
  assumes "listen_round t d a timer = (d', Sleep k)"
  shows "IsShutdown t \<and> k = d' \<and> k = (if d = 0 then baseDelay else min (2 * d) maxDelay) \<and>
    0 < k \<and> k \<le> maxDelay"
  using assms
  by (auto simp: listen_round_def Let_def baseDelay_def maxDelay_def split: accepted.splits if_splits)

theorem listen_delay_bounded_witness:
  "listen_round ((NewNetworkTransport 1 {})\<lparr>shutdownCh := True\<rparr>) 800000000 (AcceptFailed ErrEOF) True =
     (1000000000, Sleep 1000000000) \<and> (1000000000 :: nat) \<le> maxDelay"
proof -
  have r: "listen_round ((NewNetworkTransport 1 {})\<lparr>shutdownCh := True\<rparr>) 800000000 (AcceptFailed ErrEOF) True =
     (1000000000, Sleep 1000000000)"
    by (simp add: listen_round_def Let_def baseDelay_def maxDelay_def IsShutdown_def)
  with listen_delay_bounded [OF r] show ?thesis by blast
qed

text \<open>C27: In a transport in use \<open>Close\<close> never panics: it shuts the transport down, closing it
  again changes nothing, and a connection returned from then on is closed and not pooled. The
  handlers of connections that are running are not told: their context is not cancelled.\<close>

theorem close_is_final:
  assumes "reachable (usage_init poolSize types) (usage_step mp) u"
  shows "\<exists>t. Close (u_trans u) = Ret t \<and> IsShutdown t \<and> Close t = Ret t \<and>
    ConnPool t = ConnPool (u_trans u) \<and>
    GetStreamContext (u_trans u) = Some \<lparr>ctx_done = False\<rparr> \<and> GetStreamContext t = GetStreamContext (u_trans u) \<and>
    (\<forall>net c w. ReturnConn net t c w =
       (t, w\<lparr>wire_closed := nc_conn c # wire_closed w\<rparr>, net_Close net (nc_conn c)))"
proof -
  have "shutdownCh (u_trans u) = shutdown (u_trans u)" "streamCtx (u_trans u) = Some \<lparr>ctx_done = False\<rparr>"
    using pool_use.inv_reachable [OF assms] by (simp_all add: pool_ok_def)
  then show ?thesis
    by (auto simp: Close_def IsShutdown_def ReturnConn_pooled ConnPool_def GetStreamContext_def getStreamContext_def)
qed

theorem close_is_final_witness:
  "\<exists>t. Close (NewNetworkTransport 1 {0}) = Ret t \<and> IsShutdown t \<and> Close t = Ret t"
proof -
  let ?u = "\<lparr>u_trans = NewNetworkTransport 1 {0}, u_wires = quiet_wires, u_held = []\<rparr>"
  have "reachable (usage_init 1 {0}) (usage_step byte_codec) ?u"
    by (rule reachable.intros(1)) (simp add: usage_init_def quiet_wires_def)
  from close_is_final [OF this] show ?thesis by auto
qed

section \<open>Establishing the connections\<close>

lemma GetConn_ReturnConn_pools:
  assumes get: "GetConn net t a = (t1, Inr c)" and ret: "ReturnConn net t1 c w = (t2, w2, err)"
    and shape: "pool_shape t" and t: "\<not> IsShutdown t" "0 < maxPool t"
  shows "pool_shape t2 \<and> \<not> IsShutdown t2 \<and> 0 < maxPool t2 \<and> pooled t2 a \<noteq> [] \<and>
    (\<forall>b. b \<noteq> a \<longrightarrow> pooled t2 b = pooled t b)"
proof -
  note g = GetConn_shape [OF get shape]
  note r = ReturnConn_shape [OF ret]
  have t1: "IsShutdown t1 = IsShutdown t" "maxPool t1 = maxPool t" "\<forall>b. b \<noteq> a \<longrightarrow> pooled t1 b = pooled t b"
    using get by (auto elim!: GetConn_cases simp: IsShutdown_def)
  show ?thesis
    using ret
  proof (cases rule: ReturnConn_cases)
    case kept
    with g r t t1 show ?thesis by (simp add: IsShutdown_def)
  next
    case released
    have "pooled t1 a \<noteq> []"
    proof
      assume "pooled t1 a = []"
      with ret g t t1 have "t2 = t1\<lparr>connPool := fmupd a ([] @ [c]) (connPool t1)\<rparr>"
        by (simp add: ReturnConn_pooled)
      then have "pooled t2 a = [c]" by simp
      with released \<open>pooled t1 a = []\<close> show False by simp
    qed
    with released g t t1 show ?thesis by simp
  qed
qed

lemma establish_loop_pools:
  assumes "establish_loop net ports peers t w = (t', w', None)"
    and "pool_shape t" and "\<not> IsShutdown t" and "0 < maxPool t"
  shows "(\<forall>b. pooled t b \<noteq> [] \<longrightarrow> pooled t' b \<noteq> []) \<and>
    list_all (\<lambda>(name, addr). pooled t' (addr @ '':'' @ port_string ports name) \<noteq> []) peers"
  using assms
proof (induction net ports peers t w rule: establish_loop.induct)
  case (2 net ports name addr peers t w)
  let ?a = "addr @ '':'' @ port_string ports name"
  from "2.prems"(1) obtain t1 c where get: "GetConn net t ?a = (t1, Inr c)"
    by (auto split: prod.splits sum.splits)
  with "2.prems"(1) obtain t2 w2 err where ret: "ReturnConn net t1 c w = (t2, w2, err)"
    and rest: "establish_loop net ports peers t2 w2 = (t', w', None)"
    by (auto split: prod.splits)
  note one = GetConn_ReturnConn_pools [OF get ret "2.prems"(2-4)]
  have keep: "\<forall>b. pooled t b \<noteq> [] \<longrightarrow> pooled t2 b \<noteq> []" using one by metis
  from "2.IH" [OF get [symmetric] refl ret [symmetric] refl rest] one
  have "(\<forall>b. pooled t2 b \<noteq> [] \<longrightarrow> pooled t' b \<noteq> [])"
    "list_all (\<lambda>(name, addr). pooled t' (addr @ '':'' @ port_string ports name) \<noteq> []) peers"
    by blast+
  with one keep show ?case by simp
qed simp

text \<open>After \<open>EstablishP2PConns\<close> has succeeded, there is a connection in the pool for every
  peer, so that the first broadcast dials nobody.\<close>

theorem established_peers_are_pooled:
  assumes "EstablishP2PConns net n peers (Some t) w = (Some t', w', None)"
    and "pool_shape t" and "\<not> IsShutdown t" and "0 < maxPool t"
  shows "list_all (\<lambda>a. \<exists>c t''. GetConn (net\<lparr>net_Dial := \<lambda>_. Inl ErrNoTransport\<rparr>) t' a = (t'', Inr c))
    (targets (clusterPort n) {} peers)"
proof -
  from assms(1) have "establish_loop net (clusterPort n) peers t w = (t', w', None)"
    by (auto simp: EstablishP2PConns_def split: prod.splits)
  from establish_loop_pools [OF this assms(2-4)]
  have "list_all (\<lambda>a. pooled t' a \<noteq> []) (targets (clusterPort n) {} peers)"
    by (auto simp: list_all_iff targets_def)
  then show ?thesis
    by (rule list.pred_mono_strong) (auto simp: pooled_def GetConn_def split: option.splits list.splits)
qed

end
