(* ===== verification/Node_Votes.thy ===== *)
theory Node_Votes
  imports Demo
begin

text \<open>
  What a node votes for, over a whole run: every vote it broadcasts is for a proposal it
  received with a valid signature, and there is at most one vote per height.
\<close>

section \<open>The votes of a run\<close>

fun vote_at :: "u64 \<Rightarrow> message \<Rightarrow> bool" where
  "vote_at h (MsgVote v) = (BlockHeight (v_PlainVote v) = h)"
| "vote_at h m = False"

definition proposed :: "('ps, 'pp) crypto \<Rightarrow> ('ps, 'pp) node \<Rightarrow> event list \<Rightarrow> Block \<Rightarrow> bool" where
  "proposed c n evs b \<longleftrightarrow>
     (\<exists>sig. Receive (MsgBlock b) sig \<in> set evs \<and>
        verifySigED25519 c n (Proposer b) (goval_of_Block b) sig = Ret True)"

text \<open>A vote the node may cast for a block.\<close>

definition vote_of ::
  "('ps, 'pp) crypto \<Rightarrow> ('ps, 'pp) node \<Rightarrow> Block \<Rightarrow> VoteWithPartialSig \<Rightarrow> bool" where
  "vote_of c n b v \<longleftrightarrow> v_PlainVote v = plain_vote c b \<and> Sender v = node_name n \<and>
     (\<exists>sig. PartialSig v = Some sig \<and> tbls_Sign c (tsPrivateKey n) (vote_bytes c b) = Inr sig)"

fun voting_ok ::
  "('ps, 'pp) crypto \<Rightarrow> ('ps, 'pp) node \<Rightarrow> event list \<Rightarrow> task \<Rightarrow> bool" where
  "voting_ok c n evs (HandleNewBlockMsg b) = proposed c n evs b"
| "voting_ok c n evs (BroadcastVote b) = proposed c n evs b"
| "voting_ok c n evs (CastVote b v) = (proposed c n evs b \<and> vote_of c n b v)"
| "voting_ok c n evs t = True"

definition votes_run_inv ::
  "('ps, 'pp) crypto \<Rightarrow> event list \<Rightarrow> message list \<Rightarrow> ('ps, 'pp) proc \<Rightarrow> bool" where
  "votes_run_inv c evs out p \<longleftrightarrow>
     (\<forall>t. t \<in># p_tasks p \<longrightarrow> voting_ok c (p_node p) evs t) \<and>
     (\<forall>v. MsgVote v \<in> set out \<longrightarrow> (\<exists>b. proposed c (p_node p) evs b \<and> vote_of c (p_node p) b v)) \<and>
     (\<forall>h. length (filter (vote_at h) out) \<le> of_bool (lookup_bool (voted (p_node p)) h))"

lemma verifySig_static:
  "static n' = static n \<Longrightarrow> verifySigED25519 c n' x d sig = verifySigED25519 c n x d sig"
  by (simp add: verifySigED25519_def static_def)

lemma proposed_static: "static n' = static n \<Longrightarrow> proposed c n' evs b = proposed c n evs b"
  by (simp add: proposed_def verifySigED25519_def static_def)

lemma vote_of_static: "static n' = static n \<Longrightarrow> vote_of c n' b v = vote_of c n b v"
  by (simp add: vote_of_def static_def)

lemma voting_ok_static:
  assumes "static n' = static n"
  shows "voting_ok c n' evs t = voting_ok c n evs t"
  using proposed_static [OF assms] vote_of_static [OF assms] by (cases t) simp_all

lemma proposed_more: "proposed c n evs b \<Longrightarrow> proposed c n (evs @ evs') b"
  by (auto simp: proposed_def)

lemma voting_ok_more: "voting_ok c n evs t \<Longrightarrow> voting_ok c n (evs @ evs') t"
  by (cases t) (auto intro: proposed_more)

lemma run_task_voting_ok:
  assumes run: "run_task c order n t = Ret (n', ts, out)" and ok: "voting_ok c n evs t"
    and t': "t' \<in> set ts"
  shows "voting_ok c n evs t'"
proof (cases "\<exists>b. t = BroadcastVote b")
  case True
  then obtain b where t: "t = BroadcastVote b" ..
  with run have "broadcastVote c n b = Ret (n', ts, out)" by simp
  then show ?thesis
    by (rule broadcastVote_Ret) (use t t' ok in \<open>auto simp: vote_of_def\<close>)
next
  case False
  show ?thesis
    using run by (rule run_task_Ret) (use False t' ok in \<open>auto simp: handleVoteMsg_def Let_def\<close>)
qed

lemma voted_run:
  assumes "run_task c order n t = Ret (n', ts, out)" and "\<And>b v. t \<noteq> CastVote b v"
  shows "voted n' = voted n" and "out = []"
proof -
  have "voted n' = voted n \<and> out = []"
    using assms(1)
  proof (cases rule: run_task_Ret)
    case (new_block b n1 r)
    with ensure_pending_frame [OF new_block(3)] show ?thesis by auto
  next
    case (cast b v)
    with assms(2) [of b v] show ?thesis by simp
  next
    case (vote_msg v)
    with handleVoteMsg_frame show ?thesis by fastforce
  next
    case (commit bqc)
    then obtain ch where "n' = n\<lparr>chain := ch\<rparr>" using commit_frame by blast
    with commit show ?thesis by simp
  qed simp_all
  then show "voted n' = voted n" and "out = []" by simp_all
qed

lemma votes_run_inv_frame:
  assumes inv: "votes_run_inv c evs out p" and st: "static (p_node q) = static (p_node p)"
    and voted: "voted (p_node q) = voted (p_node p)" and out: "\<And>v. MsgVote v \<notin> set out'"
    and tasks: "\<And>t. t \<in># p_tasks q \<Longrightarrow>
      voting_ok c (p_node p) evs t \<or> voting_ok c (p_node p) (evs @ evs') t"
  shows "votes_run_inv c (evs @ evs') (out @ out') q"
proof -
  have "\<not> vote_at h m" if "m \<in> set out'" for h m
    using out that by (cases m) auto
  then have none: "filter (vote_at h) out' = []" for h by (simp add: filter_empty_conv)
  have "voting_ok c (p_node q) (evs @ evs') t" if "t \<in># p_tasks q" for t
    using tasks [OF that] voting_ok_static [OF st] voting_ok_more by blast
  moreover have "\<exists>b. proposed c (p_node q) (evs @ evs') b \<and> vote_of c (p_node q) b v"
    if "MsgVote v \<in> set (out @ out')" for v
  proof -
    from that out have "MsgVote v \<in> set out" by simp
    with inv obtain b where "proposed c (p_node p) evs b" "vote_of c (p_node p) b v"
      unfolding votes_run_inv_def by blast
    then show ?thesis
      using proposed_static [OF st] vote_of_static [OF st] proposed_more by blast
  qed
  moreover have "length (filter (vote_at h) (out @ out')) \<le> of_bool (lookup_bool (voted (p_node q)) h)" for h
    using inv none by (simp add: votes_run_inv_def voted)
  ultimately show ?thesis unfolding votes_run_inv_def by blast
qed

lemma votes_run_inv_run:
  assumes inv: "votes_run_inv c evs out p" and t: "p_tasks p = add_mset t rest"
    and run: "run_task c order (p_node p) t = Ret (n', ts, out')"
  shows "votes_run_inv c (evs @ [Run t]) (out @ out') (p\<lparr>p_node := n', p_tasks := rest + mset ts\<rparr>)"
proof -
  note st = static_run [OF run]
  have okt: "voting_ok c (p_node p) evs t" using inv t by (simp add: votes_run_inv_def)
  have tasks: "voting_ok c n' (evs @ [Run t]) t'" if "t' \<in># rest + mset ts" for t'
  proof -
    have "voting_ok c (p_node p) evs t'"
      using that inv t run_task_voting_ok [OF run okt] by (auto simp: votes_run_inv_def)
    then show ?thesis by (simp add: voting_ok_static [OF st] voting_ok_more)
  qed
  have old: "\<exists>b. proposed c n' (evs @ [Run t]) b \<and> vote_of c n' b v" if "MsgVote v \<in> set out" for v
    using inv that proposed_more unfolding votes_run_inv_def proposed_static [OF st] vote_of_static [OF st]
    by blast
  have counted: "length (filter (vote_at h) out) \<le> of_bool (lookup_bool (voted (p_node p)) h)" for h
    using inv by (simp add: votes_run_inv_def)
  show ?thesis
  proof (cases "\<exists>b v. t = CastVote b v")
    case False
    then have same: "voted n' = voted (p_node p)" "out' = []" using voted_run [OF run] by blast+
    show ?thesis
      by (rule votes_run_inv_frame [OF inv])
        (use st same inv t run_task_voting_ok [OF run okt] in \<open>auto simp: votes_run_inv_def\<close>)
  next
    case True
    then obtain b v where tb: "t = CastVote b v" by blast
    have vote: "vote_of c (p_node p) b v" "proposed c (p_node p) evs b" using okt tb by simp_all
    show ?thesis
    proof (cases "lookup_bool (voted (p_node p)) (Height b)")
      case True
      with run tb have "n' = p_node p" "out' = []" by (simp_all add: castVote_eq split: if_splits)
      with tasks old counted show ?thesis by (auto simp: votes_run_inv_def)
    next
      case False
      with run tb have n': "n' = (p_node p)\<lparr>voted := fmupd (Height b) True (voted (p_node p))\<rparr>"
        and out': "out' = [MsgVote v]" by (simp_all add: castVote_eq split: if_splits)
      have h: "BlockHeight (v_PlainVote v) = Height b"
        using vote(1) by (simp add: vote_of_def plain_vote_eq)
      have new: "\<exists>b. proposed c n' (evs @ [Run t]) b \<and> vote_of c n' b v"
        using vote proposed_more unfolding proposed_static [OF st] vote_of_static [OF st] by blast
      have "length (filter (vote_at h') (out @ out')) \<le> of_bool (lookup_bool (voted n') h')" for h'
        using counted [of h'] False h by (cases "h' = Height b") (auto simp: n' out')
      with tasks old new show ?thesis by (auto simp: votes_run_inv_def out')
    qed
  qed
qed

lemma votes_run_inv_step:
  assumes inv: "votes_run_inv c evs out p" and step: "proc_step c p ev out' q"
  shows "votes_run_inv c (evs @ [ev]) (out @ out') q"
proof -
  have old: "voting_ok c (p_node p) evs t" if "t \<in># p_tasks p" for t
    using inv that by (simp add: votes_run_inv_def)
  show ?thesis
    using step
  proof (cases rule: proc_step.cases)
    case (receive m sig ts)
    have "voting_ok c (p_node p) (evs @ [ev]) t" if "t \<in> set ts" for t
      using receive(5)
    proof (cases rule: HandleMsgsLoop_turn_Ret)
      case 2
      with that receive(1) show ?thesis by (cases m) (auto simp: proposed_def)
    qed (use that in simp)
    then show ?thesis by (intro votes_run_inv_frame [OF inv]) (use receive old in auto)
  next
    case (run t rest order n' ts)
    with votes_run_inv_run [OF inv run(4,7)] show ?thesis by simp
  next
    case (propose n' l' ts)
    have "set ts \<subseteq> {SendHeight 0}" "\<And>v. MsgVote v \<notin> set out'"
      using propose(5) by (auto elim!: loop_step_frame)
    then show ?thesis
      by (intro votes_run_inv_frame [OF inv])
        (use propose old static_propose [OF propose(5)] votes_for_propose(7) [OF propose(5)] in auto)
  qed (intro votes_run_inv_frame [OF inv]; use old in auto)+
qed

lemma votes_run_inv_all:
  assumes run: "proc_run c p evs out q" and init: "proc_init c conf p"
  shows "votes_run_inv c evs out q"
  using run init
proof (induction rule: proc_run.induct)
  case (run_nil p)
  then show ?case by (auto simp: votes_run_inv_def proc_init_def)
next
  case (run_snoc p evs out q ev out' r)
  then show ?case by (blast intro: votes_run_inv_step)
qed

end
