(* ===== verification/Node_Properties.thy ===== *)
theory Node_Properties
  imports Node_Votes
begin

text \<open>
  What holds of a node in every state it can reach, under every schedule of its goroutines
  and whatever it receives. The proofs rest on \<open>running\<close>, the interpretation of
  \<open>inductive_invariant\<close> for the steps of the process.
\<close>

section \<open>Shared lemmas\<close>

lemma reachable_inv:
  assumes "reachable (proc_init c conf) (proc_next c) p"
  shows "store_inv c (p_node p)" "chain_inv (p_node p)" "qc_inv (p_node p) (p_tasks p)"
    "votes_inv (p_node p) (p_tasks p)" "quorum_inv c (p_node p) (p_tasks p)"
    "committed_inv c (p_node p)" "wake_inv c (p_node p) (p_tasks p)"
  using running.inv_reachable [OF assms] by (simp_all add: node_inv_def)

lemma reachable_unlocked:
  "reachable (proc_init c conf) (proc_next c) p \<Longrightarrow> \<not> lock_kept (p_node p)"
  using reachable_inv(3) by (auto simp: qc_inv_def)

text \<open>What \<open>NewNode\<close> takes from the configuration never changes.\<close>

lemma proc_step_static:
  assumes "proc_step c p ev out q"
  shows "static (p_node q) = static (p_node p)"
  using assms
proof (cases rule: proc_step.cases)
  case (run t rest order n' ts)
  with static_run [OF run(7)] show ?thesis by simp
next
  case (propose n' l' ts)
  with static_propose [OF propose(5)] show ?thesis by simp
qed (simp_all add: static_def)

lemma run_static:
  "proc_run c p evs out q \<Longrightarrow> static (p_node q) = static (p_node p)"
proof (induction rule: proc_run.induct)
  case (run_snoc p evs out q ev out' r)
  with proc_step_static [OF run_snoc(2)] show ?case by simp
qed simp

lemma reachable_key:
  "reachable (proc_init c conf) (proc_next c) p \<Longrightarrow> privateKey (p_node p) = conf_PrivateKey conf"
proof (induction rule: reachable.induct)
  case (reach_init p)
  then show ?case unfolding proc_init_def by (blast intro: NewNode_Ret(14))
next
  case (reach_step p q)
  then show ?case unfolding proc_next_def using proc_step_static static_D(7) by metis
qed

text \<open>The state of the cluster of one after it has committed its block.\<close>

lemma committed_state:
  "\<exists>p. reachable (proc_init toy one) (proc_next toy) p \<and> chain_height (chain (p_node p)) = 1 \<and>
     fmlookup (chain_blocks (chain (p_node p))) 1 = Some \<lparr>bq_Block = blk_a, QC = Some [9]\<rparr> \<and>
     candidateHeightUpdated (p_node p) = [0] \<and>
     p_tasks p = {#CheckIfQuorumVotes 1 ''61'', TryExtendCandidateChain, SendHeight 1, TryExtendChain#}"
proof -
  obtain l where l: "exec toy one commit_a = Some (l, [MsgVote (toy_vote ''a'' blk_a)])"
    "chain_height (chain (fst l)) = 1"
    "fmlookup (chain_blocks (chain (fst l))) 1 = Some \<lparr>bq_Block = blk_a, QC = Some [9]\<rparr>"
    "candidateHeightUpdated (fst l) = [0]"
    "mset (snd l) = {#CheckIfQuorumVotes 1 ''61'', TryExtendCandidateChain, SendHeight 1, TryExtendChain#}"
    using commit_a_exec by blast
  from exec_reachable [OF l(1)] l show ?thesis
    by (intro exI [where x = "live_proc l"]) (simp add: live_proc_def)
qed

lemma commit_a_run:
  "\<exists>p q. proc_init toy one p \<and>
     proc_run toy p (map event_of commit_a) [MsgVote (toy_vote ''a'' blk_a)] q"
  using commit_a_exec exec_run_of by blast

lemma sint_le_uint: "sint (w :: u64) \<le> uint w"
proof (cases "sint w < 0")
  case True
  also have "0 \<le> uint w" by simp
  finally show ?thesis by simp
next
  case False
  have "sint w < 2 ^ (LENGTH(64) - 1)" by (rule sint_lt)
  then have "sint w < 2 ^ 64" by simp
  with False show ?thesis by (simp add: uint_sint take_bit_int_eq_self)
qed

text \<open>Selecting a block succeeds in every reachable state: the candidate chain has a block of
  its own height.\<close>

lemma select_returns:
  assumes "reachable (proc_init c conf) (proc_next c) p" and "select_ok (p_node p) ranNum order"
  obtains prev where "propose_select ranNum order (p_node p) = Ret prev"
    "Height prev = cc_height (candidateChain (p_node p))"
    "cc_block (block_store (p_node p)) (candidateChain (p_node p)) (Height prev) (block_key c prev) = Some prev"
proof -
  let ?n = "p_node p"
  let ?h = "cc_height (candidateChain ?n)"
  note store = reachable_inv(1) [OF assms(1)]
  have "?h \<in> fmdom' (cc_blocks (candidateChain ?n))"
    using reachable_inv(2) [OF assms(1)] by (auto simp: chain_inv_def prefix_or_all_def)
  then obtain r where r: "fmlookup (cc_blocks (candidateChain ?n)) ?h = Some r"
    by (auto simp: fmlookup_dom'_iff)
  let ?m = "block_store ?n r" and ?key = "fst (order ! ranNum)" and ?prev = "snd (order ! ranNum)"
  have m: "cc_lookup (block_store ?n) (candidateChain ?n) ?h = Some ?m"
    using r by (simp add: cc_lookup_def)
  with assms(2) have ord: "map_order ?m order" "ranNum < map_len ?m"
    by (simp_all add: select_ok_def)
  note sel = selectBlock_Inr [OF m ord]
  have block: "cc_block (block_store ?n) (candidateChain ?n) ?h ?key = Some ?prev"
    using m sel(2) by (simp add: cc_block_def)
  show thesis
    by (rule that [of ?prev])
      (use sel(1) block cc_block_filed [OF store block] in \<open>simp_all add: propose_select_def\<close>)
qed

lemma select_ok_exists:
  assumes "reachable (proc_init c conf) (proc_next c) p"
  shows "\<exists>ranNum order. select_ok (p_node p) ranNum order"
proof -
  let ?n = "p_node p"
  let ?h = "cc_height (candidateChain ?n)"
  have "?h \<in> fmdom' (cc_blocks (candidateChain ?n))"
    using reachable_inv(2) [OF assms] by (auto simp: chain_inv_def prefix_or_all_def)
  then obtain r where r: "fmlookup (cc_blocks (candidateChain ?n)) ?h = Some r"
    by (auto simp: fmlookup_dom'_iff)
  then have "block_store ?n r \<noteq> fmempty"
    using reachable_inv(1) [OF assms] unfolding store_inv_def by blast
  moreover obtain order where ord: "map_order (block_store ?n r) order" using map_order_exists by blast
  ultimately have "order \<noteq> []" by (auto simp: map_order_def)
  with ord have "map_order (block_store ?n r) order" "0 < map_len (block_store ?n r)"
    by (simp_all flip: map_order_length [OF ord])
  with r show ?thesis by (intro exI [of _ 0] exI [of _ order]) (simp add: select_ok_def cc_lookup_def)
qed

text \<open>So the loop panics only where it signs what it broadcasts.\<close>

definition signing_panics :: "('ps, 'pp) node \<Rightarrow> proposer \<Rightarrow> bool" where
  "signing_panics n l \<longleftrightarrow>
     length (privateKey n) \<noteq> 64 \<and> (\<exists>prev. pl_at l = Drawing prev \<or> pl_at l = Packaging prev)"

lemma loop_panics_bad_key:
  assumes "reachable (proc_init c conf) (proc_next c) p" and "loop_panics c (p_node p) l"
  shows "signing_panics (p_node p) l"
  using assms(2)
proof (cases rule: loop_panics.cases)
  case (select_panics ranNum order e)
  with select_returns [OF assms(1) select_panics(2)] show ?thesis by (metis outcome.distinct(1))
next
  case (draw_panics prev rounds e)
  with propose_draw_Panic [OF draw_panics(3)] show ?thesis by (auto simp: signing_panics_def)
next
  case (package_panics prev e)
  then show ?thesis by (auto simp: signing_panics_def propose_package_eq Let_def split: if_splits)
qed

text \<open>Moves of the loop; with few requests waiting it gets to the channel by way of its timer.\<close>

lemma loop_reachable:
  assumes "reachable (proc_init c conf) (proc_next c) p" and "node_canProposeBlock (p_node p)"
    and "\<not> p_crashed p" and "loop_step c (p_node p) (p_loop p) n' l' ts out"
  shows "reachable (proc_init c conf) (proc_next c)
    (p\<lparr>p_node := n', p_loop := l', p_tasks := p_tasks p + mset ts\<rparr>)"
  using reachable.intros(2) [OF assms(1)] proc_step.propose [OF assms(3,2,4)]
  unfolding proc_next_def by blast

lemma loop_reachable_same:
  assumes "reachable (proc_init c conf) (proc_next c) p" and "node_canProposeBlock (p_node p)"
    and "\<not> p_crashed p" and "loop_step c (p_node p) (p_loop p) (p_node p) l' [] []"
  shows "reachable (proc_init c conf) (proc_next c) (p\<lparr>p_loop := l'\<rparr>)"
  using loop_reachable [OF assms] by simp

lemma loop_reaches_wait:
  assumes "reachable (proc_init c conf) (proc_next c) p" and "node_canProposeBlock (p_node p)"
    and "\<not> p_crashed p" and "p_loop p = new_timeOut AtTop" and "length (requestPool (p_node p)) < 1000"
  shows "reachable (proc_init c conf) (proc_next c) (p\<lparr>p_loop := new_timeOut AwaitHeight\<rparr>)"
proof -
  let ?begun = "\<lparr>pl_at = AwaitTimeOut, pl_timers = 1, pl_timeOut = 0\<rparr>"
  let ?fired = "\<lparr>pl_at = AwaitTimeOut, pl_timers = 0, pl_timeOut = 1\<rparr>"
  have "reachable (proc_init c conf) (proc_next c) (p\<lparr>p_loop := ?begun\<rparr>)"
    by (rule loop_reachable_same [OF assms(1-3)])
      (use assms(4,5) loop_step.loop_begin [of "p_loop p" c "p_node p"] in
        \<open>simp add: propose_begin_def new_timeOut_def\<close>)
  then have "reachable (proc_init c conf) (proc_next c) (p\<lparr>p_loop := ?begun\<rparr>\<lparr>p_loop := ?fired\<rparr>)"
    by (rule loop_reachable_same)
      (use assms loop_step.loop_timer [of ?begun c "p_node p"] in \<open>simp_all add: timer_sends_def\<close>)
  then have "reachable (proc_init c conf) (proc_next c)
      (p\<lparr>p_loop := ?begun\<rparr>\<lparr>p_loop := ?fired\<rparr>\<lparr>p_loop := new_timeOut AwaitHeight\<rparr>)"
    by (rule loop_reachable_same)
      (use assms loop_step.loop_timeOut [of ?fired c "p_node p"] in
        \<open>simp_all add: propose_timeOut_def new_timeOut_def\<close>)
  then show ?thesis by simp
qed

section \<open>Properties\<close>

text \<open>C1: Every block of a node's committed chain is backed by a quorum. It is the genesis
  block, or the certified block of a certificate, or an ancestor of it by parent hashes; the
  certificate was recovered for that block's vote, the node has recorded votes for the block
  from at least \<open>quorumNum\<close> distinct senders, and all of them are in its key table.\<close>

theorem committed_backed_by_quorum:
  assumes "reachable (proc_init c conf) (proc_next c) p"
    and "fmlookup (chain_blocks (chain (p_node p))) h = Some e"
  shows "h = 0 \<and> e = \<lparr>bq_Block = genesis, QC = Some []\<rparr> \<or>
    (\<exists>b voters sigs sig. QC e = Some sig \<and> ancestor c UNIV b (bq_Block e) \<and>
       voters = votes_for (p_node p) (Height b) (block_key c b) \<and>
       quorumNum (p_node p) \<le> int (map_len voters) \<and>
       fmdom voters |\<subseteq>| fmdom (publicKeyMap (p_node p)) \<and>
       tbls_Recover c (tsPublicKey (p_node p)) (vote_bytes c b) sigs
         (quorumNum (p_node p)) (nodeNum (p_node p)) = Inr sig)"
  using reachable_inv(4,6) [OF assms(1)] assms(2)
  unfolding committed_in_def justified_def certified_def has_quorum_def votes_inv_def
  by metis

theorem committed_backed_by_quorum_witness:
  "\<exists>p e b. reachable (proc_init toy one) (proc_next toy) p \<and>
     fmlookup (chain_blocks (chain (p_node p))) 1 = Some e \<and> ancestor toy UNIV b (bq_Block e) \<and>
     quorumNum (p_node p) \<le> int (map_len (votes_for (p_node p) (Height b) (block_key toy b)))"
proof -
  obtain p where "reachable (proc_init toy one) (proc_next toy) p"
    "fmlookup (chain_blocks (chain (p_node p))) 1 = Some \<lparr>bq_Block = blk_a, QC = Some [9]\<rparr>"
    using committed_state by blast
  with committed_backed_by_quorum [OF this] show ?thesis by (simp, blast)
qed

text \<open>C2: A node broadcasts at most one vote per height over its whole life, whatever
  proposals it receives and however its goroutines interleave, although \<open>BroadcastVote\<close>
  releases its lock between the first check of \<open>voted\<close> and the vote.\<close>

theorem one_vote_per_height:
  assumes "proc_init c conf p" and "proc_run c p evs out q"
  shows "length (filter (vote_at h) out) \<le> 1"
  using votes_run_inv_all [OF assms(2,1)] unfolding votes_run_inv_def
  by (metis (no_types, lifting) of_bool_less_eq_one order_trans)

theorem one_vote_per_height_witness:
  "\<exists>p q evs. proc_init toy one p \<and> proc_run toy p evs [MsgVote (toy_vote ''a'' blk_a)] q \<and>
     length (filter (vote_at 1) [MsgVote (toy_vote ''a'' blk_a)]) \<le> 1"
proof -
  obtain p q where "proc_init toy one p"
    "proc_run toy p (map event_of commit_a) [MsgVote (toy_vote ''a'' blk_a)] q"
    using commit_a_run by blast
  with one_vote_per_height [OF this] show ?thesis by blast
qed

text \<open>C5: Every vote a node broadcasts is for a proposal it received with a valid
  signature of its proposer, names the block's digest and height, carries the node's name
  and its partial threshold signature over exactly that plain vote.\<close>

theorem votes_only_for_proposals:
  assumes "proc_init c conf p" and "proc_run c p evs out q" and "MsgVote v \<in> set out"
  shows "\<exists>b sig psig. Receive (MsgBlock b) sig \<in> set evs \<and>
    verifySigED25519 c (p_node q) (Proposer b) (goval_of_Block b) sig = Ret True \<and>
    v = \<lparr>v_PlainVote = \<lparr>BlockHash = Some (block_hash c b), BlockHeight = Height b, Opinion = True\<rparr>,
         Sender = node_name (p_node q), PartialSig = Some psig\<rparr> \<and>
    tbls_Sign c (tsPrivateKey (p_node q)) (vote_bytes c b) = Inr psig"
proof -
  obtain b where "proposed c (p_node q) evs b" and v: "vote_of c (p_node q) b v"
    using votes_run_inv_all [OF assms(2,1)] assms(3) unfolding votes_run_inv_def by blast
  then show ?thesis by (cases v) (auto simp: proposed_def vote_of_def plain_vote_eq)
qed

theorem votes_only_for_proposals_witness:
  "\<exists>p q evs b sig. proc_init toy one p \<and> proc_run toy p evs [MsgVote (toy_vote ''a'' blk_a)] q \<and>
     Receive (MsgBlock b) sig \<in> set evs"
proof -
  obtain p q where "proc_init toy one p"
    "proc_run toy p (map event_of commit_a) [MsgVote (toy_vote ''a'' blk_a)] q"
    using commit_a_run by blast
  with votes_only_for_proposals [OF this list.set_intros(1)] show ?thesis by blast
qed


text \<open>C6: No goroutine ever returns with the node's lock held. The branch of
  \<open>handleNewBlockQC\<close> that does so, for a second certificate at a height, is never taken,
  because \<open>qcCreated\<close> lets only one certificate per height be built.\<close>

theorem lock_always_released:
  assumes "reachable (proc_init c conf) (proc_next c) p"
  shows "\<not> lock_kept (p_node p)"
  using assms by (rule reachable_unlocked)

theorem lock_always_released_witness:
  "\<exists>p. reachable (proc_init toy one) (proc_next toy) p \<and> chain_height (chain (p_node p)) = 1 \<and>
     \<not> lock_kept (p_node p)"
  using committed_state lock_always_released [of toy one] by metis

text \<open>C7: The committed chain has a block at every height up to its own, and each block is
  at its height; so printing the chain, which reads every height, never dereferences nil.\<close>

theorem chain_has_no_gaps:
  assumes "reachable (proc_init c conf) (proc_next c) p" and "h \<le> chain_height (chain (p_node p))"
  shows "(\<exists>e. fmlookup (chain_blocks (chain (p_node p))) h = Some e \<and> Height (bq_Block e) = h) \<and>
    (\<exists>s. Chain_String c (chain (p_node p)) = Ret s)"
proof
  note inv = reachable_inv(2) [OF assms(1)]
  from inv assms(2) have "h \<in> fmdom' (chain_blocks (chain (p_node p)))"
    by (auto simp: chain_inv_def)
  with inv show "\<exists>e. fmlookup (chain_blocks (chain (p_node p))) h = Some e \<and> Height (bq_Block e) = h"
    by (auto simp: chain_inv_def fmlookup_dom'_iff)
  let ?h = "chain_height (chain (p_node p))"
  have "word_of_nat i |\<in>| fmdom (chain_blocks (chain (p_node p)))"
    if "i \<in> set [0..<nat (sint ?h + 1)]" for i
  proof -
    have "int i \<le> sint ?h" using that by auto
    also have "\<dots> \<le> uint ?h" by (rule sint_le_uint)
    finally have "int i \<le> int (unat ?h)" by simp
    then have "i \<le> unat ?h" by (simp only: of_nat_le_iff)
    then have "word_of_nat i \<le> ?h"
      by (metis (mono_tags, lifting) le_unat_uoi word_le_nat_alt)
    with inv show ?thesis by (auto simp: chain_inv_def fmdom'_alt_def)
  qed
  then show "\<exists>s. Chain_String c (chain (p_node p)) = Ret s"
    unfolding Chain_String_def by (intro Chain_String_loop_Ret) blast
qed

theorem chain_has_no_gaps_witness:
  "\<exists>p e s. reachable (proc_init toy one) (proc_next toy) p \<and>
     fmlookup (chain_blocks (chain (p_node p))) 1 = Some e \<and> Height (bq_Block e) = 1 \<and>
     Chain_String toy (chain (p_node p)) = Ret s"
proof -
  obtain p where "reachable (proc_init toy one) (proc_next toy) p"
    "chain_height (chain (p_node p)) = 1" using committed_state by blast
  with chain_has_no_gaps [OF this(1), of 1] show ?thesis by auto
qed

text \<open>C9: The proposing loop proposes on the candidate chain and panics only for a bad key:
  whatever the other goroutines do between its phases, whatever block the random choice falls
  on and in whatever order the maps are visited, the block it selects has the candidate
  chain's height and is filed there, and a phase can panic only where the loop signs its loss
  or its proposal with a private key that is not 64 bytes long (which \<open>NewNode\<close> accepts).\<close>

theorem proposing_panics_only_for_bad_key:
  assumes "reachable (proc_init c conf) (proc_next c) p" and "proc_step c p Propose out q"
  shows "(p_crashed q \<longrightarrow> length (privateKey (p_node p)) \<noteq> 64 \<and>
      (\<exists>prev. pl_at (p_loop p) = Drawing prev \<or> pl_at (p_loop p) = Packaging prev)) \<and>
    (\<forall>prev. pl_at (p_loop p) = Selecting \<longrightarrow> pl_at (p_loop q) = Drawing prev \<longrightarrow>
       Height prev = cc_height (candidateChain (p_node p)) \<and>
       cc_block (block_store (p_node p)) (candidateChain (p_node p)) (Height prev) (block_key c prev) = Some prev)"
  using assms(2)
proof (cases rule: proc_step.cases)
  case (propose n' l' ts)
  have selected: "Height prev = cc_height (candidateChain (p_node p)) \<and>
      cc_block (block_store (p_node p)) (candidateChain (p_node p)) (Height prev) (block_key c prev) = Some prev"
    if "pl_at (p_loop p) = Selecting" "pl_at l' = Drawing prev" for prev
    using propose(4)
  proof (cases rule: loop_step.cases)
    case (loop_select ranNum order prev')
    with that(2) have "propose_select ranNum order (p_node p) = Ret prev" by simp
    with select_returns [OF assms(1) loop_select(6)] show ?thesis by (metis outcome.inject(1))
  qed (use that in \<open>simp_all add: timer_sends_def\<close>)
  have "pl_at (p_loop q) = pl_at l'" "\<not> p_crashed q" using propose(1,2) by simp_all
  with selected show ?thesis by metis
next
  case propose_panic
  with loop_panics_bad_key [OF assms(1) propose_panic(5)] show ?thesis
    by (auto simp: signing_panics_def)
qed

text \<open>The committed cluster of one goes on to select its block.\<close>

lemma selecting_state:
  "\<exists>p q. reachable (proc_init toy one) (proc_next toy) p \<and> proc_step toy p Propose [] q \<and>
     pl_at (p_loop p) = Selecting \<and> pl_at (p_loop q) = Drawing blk_a"
proof -
  obtain l where l: "exec toy one commit_a = Some (l, [MsgVote (toy_vote ''a'' blk_a)])"
    "candidateHeightUpdated (fst l) = [0]" "select_ok (fst l) 0 [(''61'', blk_a)]"
    "node_canProposeBlock (fst l)" "requestPool (fst l) = []"
    "propose_select 0 [(''61'', blk_a)] (fst l) = Ret blk_a"
    using commit_a_exec by blast
  let ?p = "(live_proc l)\<lparr>p_loop := new_timeOut AwaitHeight\<rparr>"
  let ?n = "(fst l)\<lparr>candidateHeightUpdated := []\<rparr>"
  let ?q = "?p\<lparr>p_node := ?n, p_loop := new_timeOut Selecting\<rparr>"
  have "reachable (proc_init toy one) (proc_next toy) ?p"
    by (rule loop_reaches_wait [OF exec_reachable [OF l(1)]]) (use l in \<open>simp_all add: live_proc_def\<close>)
  from loop_reachable [OF this, where n' = ?n and l' = "new_timeOut Selecting" and ts = "[]" and out = "[]"]
  have q: "reachable (proc_init toy one) (proc_next toy) ?q"
    using l loop_step.loop_receive [of "new_timeOut AwaitHeight" "fst l" 0 "[]" toy]
    by (simp add: live_proc_def new_timeOut_def)
  have "loop_step toy ?n (new_timeOut Selecting) ?n (new_timeOut Selecting\<lparr>pl_at := Drawing blk_a\<rparr>) [] []"
    by (rule loop_step.loop_select [of _ _ 0 "[(''61'', blk_a)]"])
      (use l in \<open>simp_all add: select_ok_def propose_select_def new_timeOut_def\<close>)
  then have "proc_step toy ?q Propose []
      (?q\<lparr>p_node := ?n, p_loop := new_timeOut (Drawing blk_a), p_tasks := p_tasks ?q + mset []\<rparr>)"
    by (intro proc_step.propose) (use l in \<open>simp_all add: live_proc_def new_timeOut_def\<close>)
  moreover have "pl_at (p_loop ?q) = Selecting" by (simp add: new_timeOut_def)
  ultimately show ?thesis using q by (intro exI conjI) (assumption | simp add: new_timeOut_def)+
qed

theorem proposing_panics_only_for_bad_key_witness:
  "\<exists>p q. reachable (proc_init toy one) (proc_next toy) p \<and> proc_step toy p Propose [] q \<and>
     \<not> p_crashed q \<and> Height blk_a = cc_height (candidateChain (p_node p))"
proof -
  obtain p q where pq: "reachable (proc_init toy one) (proc_next toy) p" "proc_step toy p Propose [] q"
    "pl_at (p_loop p) = Selecting" "pl_at (p_loop q) = Drawing blk_a"
    using selecting_state by blast
  have "length (privateKey (p_node p)) = 64" using reachable_key [OF pq(1)] by (simp add: toy_config_def config_New_def)
  with proposing_panics_only_for_bad_key [OF pq(1,2)] pq show ?thesis by blast
qed

end
