(* ===== verification/Node_Liveness.thy ===== *)
theory Node_Liveness
  imports Node_Properties
begin

text \<open>
  Progress of a node. \<open>kept_inv\<close>: a certificate that was begun is being worked on, or it was
  built for a block with a quorum and is waiting in \<open>pendingBlocksQC\<close> or was put on top of the
  committed chain at some moment of the run. What was put there can be overwritten by later commits, so the
  invariant speaks of the states the run went through. With the wake-ups of
  \<open>Node_Progress\<close>, a node with no goroutine left to run has done all that its messages allow.
\<close>

section \<open>The states of a run\<close>

inductive through ::
  "('ps, 'pp) crypto \<Rightarrow> ('ps, 'pp) proc \<Rightarrow> event list \<Rightarrow> message list \<Rightarrow> ('ps, 'pp) proc list \<Rightarrow>
   ('ps, 'pp) proc \<Rightarrow> bool"
  for c :: "('ps, 'pp) crypto" where
  through_nil: "through c p [] [] [p] p"
| through_snoc:
  "through c p evs out ps q \<Longrightarrow> proc_step c q ev out' r \<Longrightarrow>
   through c p (evs @ [ev]) (out @ out') (ps @ [r]) r"

lemma through_run: "through c p evs out ps q \<Longrightarrow> proc_run c p evs out q"
  by (induction rule: through.induct) (auto intro: proc_run.intros)

lemma run_through: "proc_run c p evs out q \<Longrightarrow> \<exists>ps. through c p evs out ps q"
  by (induction rule: proc_run.induct) (blast intro: through.intros)+

lemma through_reachable:
  "through c p evs out ps q \<Longrightarrow> proc_init c conf p \<Longrightarrow> reachable (proc_init c conf) (proc_next c) q"
  using through_run proc_run_reachable reachable.intros(1) by metis

section \<open>A certificate is not lost\<close>

text \<open>A certificate built for a block at height \<open>h\<close> with a recorded quorum: it waits in
  \<open>pendingBlocksQC\<close>, or it was the top of the committed chain in one of the states \<open>ps\<close>.\<close>

definition certificate_kept ::
  "('ps, 'pp) crypto \<Rightarrow> ('ps, 'pp) proc list \<Rightarrow> ('ps, 'pp) node \<Rightarrow> u64 \<Rightarrow> bool" where
  "certificate_kept c ps n h \<longleftrightarrow>
     (\<exists>bqc. Height (bq_Block bqc) = h \<and> certified c n bqc \<and>
        (fmlookup (pendingBlocksQC n) h = Some bqc \<or>
         (\<exists>r \<in> set ps. chain_height (chain (p_node r)) = h \<and>
            fmlookup (chain_blocks (chain (p_node r))) h = Some bqc)))"

definition kept_inv ::
  "('ps, 'pp) crypto \<Rightarrow> ('ps, 'pp) proc list \<Rightarrow> ('ps, 'pp) node \<Rightarrow> task multiset \<Rightarrow> bool" where
  "kept_inv c ps n M \<longleftrightarrow>
     (\<forall>h. lookup_bool (qcCreated n) h \<longrightarrow> 0 < qc_work h M \<or> certificate_kept c ps n h)"

lemma certificate_kept_mono:
  assumes "certificate_kept c ps n h" and "\<And>bqc. certified c n bqc \<Longrightarrow> certified c (p_node r) bqc"
    and "\<And>bqc. fmlookup (pendingBlocksQC n) h = Some bqc \<Longrightarrow>
      fmlookup (pendingBlocksQC (p_node r)) h = Some bqc \<or>
      chain_height (chain (p_node r)) = h \<and> fmlookup (chain_blocks (chain (p_node r))) h = Some bqc"
  shows "certificate_kept c (ps @ [r]) (p_node r) h"
proof -
  from assms(1) obtain bqc where b: "Height (bq_Block bqc) = h" "certified c n bqc"
    and at: "fmlookup (pendingBlocksQC n) h = Some bqc \<or>
         (\<exists>s \<in> set ps. chain_height (chain (p_node s)) = h \<and>
            fmlookup (chain_blocks (chain (p_node s))) h = Some bqc)"
    unfolding certificate_kept_def by blast
  from at assms(3) [of bqc] have "fmlookup (pendingBlocksQC (p_node r)) h = Some bqc \<or>
         (\<exists>s \<in> set (ps @ [r]). chain_height (chain (p_node s)) = h \<and>
            fmlookup (chain_blocks (chain (p_node s))) h = Some bqc)" by auto
  with b assms(2) show ?thesis unfolding certificate_kept_def by blast
qed

lemma certified_step:
  assumes inv: "node_inv c p" and step: "proc_step c p ev out q" and bqc: "certified c (p_node p) bqc"
  shows "certified c (p_node q) bqc"
  using step
proof (cases rule: proc_step.cases)
  case (run t rest order n' ts)
  with certified_run [OF _ run(7) bqc] inv show ?thesis by (simp add: node_inv_def)
next
  case (propose n' l' ts)
  with static_cong_certified(1) [OF static_propose [OF propose(5)] votes_for_propose(1,2) [OF propose(5)]] bqc
  show ?thesis by simp
qed (use bqc in simp_all)

lemma commit_waiting:
  "CommitAncestorByBlockQC n bqc = Ret n' \<Longrightarrow>
     pendingBlocksQC n' = pendingBlocksQC n \<and> qcCreated n' = qcCreated n"
  using commit_frame by fastforce

text \<open>What a goroutine's run does to a waiting certificate and to the work on one.\<close>

lemma waiting_run:
  assumes qc: "qc_inv n (add_mset t rest)" and run: "run_task c order n t = Ret (n', ts, out)"
    and wait: "fmlookup (pendingBlocksQC n) h = Some bqc"
  shows "fmlookup (pendingBlocksQC n') h = Some bqc \<or>
    chain_height (chain n') = h \<and> fmlookup (chain_blocks (chain n')) h = Some bqc"
  using run
proof (cases rule: run_task_Ret)
  case (new_block b n1 r)
  with ensure_pending_frame [OF new_block(3)] wait show ?thesis by auto
next
  case (vote_msg v)
  with handleVoteMsg_frame [OF vote_msg(3)] wait show ?thesis by auto
next
  case (commit bqc')
  with commit_waiting [OF commit(4)] wait show ?thesis by simp
qed (use wait in auto)

lemma work_run:
  assumes store: "store_inv c n" and chain: "chain_inv n" and qc: "qc_inv n (add_mset t rest)"
    and quorum: "quorum_inv c n (add_mset t rest)" and run: "run_task c order n t = Ret (n', ts, out)"
    and h: "0 < qc_work h (add_mset t rest) \<or> (lookup_bool (qcCreated n') h \<and> \<not> lookup_bool (qcCreated n) h)"
  shows "0 < qc_work h (rest + mset ts) \<or>
    (\<exists>bqc. Height (bq_Block bqc) = h \<and> certified c n bqc \<and> fmlookup (pendingBlocksQC n') h = Some bqc)"
  using run
proof (cases rule: run_task_Ret)
  case (new_block b n1 r)
  with ensure_pending_frame [OF new_block(3)] h show ?thesis by auto
next
  case (vote_msg v)
  with handleVoteMsg_frame [OF vote_msg(3)] h show ?thesis by auto
next
  case (check_yes k s)
  with h show ?thesis by (auto simp: of_bool_def)
next
  case (build k s b sig)
  have "Height b = k" by (rule pending_block_filed(1) [OF store build(4)])
  with build h show ?thesis by (auto simp: of_bool_def split: if_splits)
next
  case (qc_dup bqc)
  have "qc_filed n (Height (bq_Block bqc)) + qc_work (Height (bq_Block bqc)) (add_mset t rest) \<le> 1"
    using qc unfolding qc_inv_def by (metis of_bool_less_eq_one order_trans)
  with qc_dup show ?thesis by (auto simp: qc_filed_def)
next
  case (qc_new bqc)
  have "certified c n bqc" using quorum qc_new(1) by (auto simp: quorum_inv_def)
  with qc_new h show ?thesis by (auto simp: of_bool_def split: if_splits)
next
  case (commit bqc)
  with commit_waiting [OF commit(4)] h show ?thesis by auto
qed (use h in auto)

lemma kept_inv_run:
  assumes inv: "node_inv c p" "kept_inv c ps (p_node p) (p_tasks p)" and step: "proc_step c p (Run t) out q"
    and t: "p_tasks p = add_mset t rest" and run: "run_task c order (p_node p) t = Ret (n', ts, out)"
    and q: "q = p\<lparr>p_node := n', p_tasks := rest + mset ts\<rparr>"
  shows "kept_inv c (ps @ [q]) (p_node q) (p_tasks q)"
  unfolding kept_inv_def
proof (intro allI impI)
  fix h assume h: "lookup_bool (qcCreated (p_node q)) h"
  have q': "p_node q = n'" "p_tasks q = rest + mset ts" using q by simp_all
  note kept = certificate_kept_mono [where r = q and c = c and ps = ps and h = h and n = "p_node p",
      OF _ certified_step [OF inv(1) step]]
  have qc: "qc_inv (p_node p) (add_mset t rest)" using inv(1) t by (simp add: node_inv_def)
  show "0 < qc_work h (p_tasks q) \<or> certificate_kept c (ps @ [q]) (p_node q) h"
  proof (cases "certificate_kept c ps (p_node p) h")
    case True
    then show ?thesis using kept waiting_run [OF qc run] unfolding q' by blast
  next
    case False
    then have "0 < qc_work h (add_mset t rest) \<or> (lookup_bool (qcCreated n') h \<and> \<not> lookup_bool (qcCreated (p_node p)) h)"
      using inv(2) h unfolding kept_inv_def t q' by blast
    from work_run [OF _ _ qc _ run this] inv(1) t
    have "0 < qc_work h (rest + mset ts) \<or> (\<exists>bqc. Height (bq_Block bqc) = h \<and> certified c (p_node p) bqc \<and>
        fmlookup (pendingBlocksQC n') h = Some bqc)" by (simp add: node_inv_def)
    then show ?thesis
      using certified_step [OF inv(1) step] unfolding certificate_kept_def q' by blast
  qed
qed

lemma kept_inv_frame:
  assumes inv: "node_inv c p" "kept_inv c ps (p_node p) (p_tasks p)" and step: "proc_step c p ev out q"
    and same: "pendingBlocksQC (p_node q) = pendingBlocksQC (p_node p)"
      "qcCreated (p_node q) = qcCreated (p_node p)" "\<And>h. qc_work h (p_tasks q) = qc_work h (p_tasks p)"
  shows "kept_inv c (ps @ [q]) (p_node q) (p_tasks q)"
  unfolding kept_inv_def same(2,3)
proof (intro allI impI)
  fix h assume h: "lookup_bool (qcCreated (p_node p)) h"
  note kept = certificate_kept_mono [where r = q and c = c and ps = ps and h = h and n = "p_node p",
      OF _ certified_step [OF inv(1) step]]
  with h inv(2) same(1) show "0 < qc_work h (p_tasks p) \<or> certificate_kept c (ps @ [q]) (p_node q) h"
    unfolding kept_inv_def by (metis (lifting))
qed

lemma kept_inv_step:
  assumes inv: "node_inv c p" "kept_inv c ps (p_node p) (p_tasks p)" and step: "proc_step c p ev out q"
  shows "kept_inv c (ps @ [q]) (p_node q) (p_tasks q)"
  using step
proof (cases rule: proc_step.cases)
  case (receive m sig ts)
  have "qc_work h (p_tasks p + mset ts) = qc_work h (p_tasks p)" for h
    using receive(5) by (auto elim!: HandleMsgsLoop_turn_Ret)
  with receive show ?thesis by (intro kept_inv_frame [OF inv step]) simp_all
next
  case (run t rest order n' ts)
  from kept_inv_run [OF inv step [unfolded run(1)] run(4) run(7) run(2)] show ?thesis .
next
  case (propose n' l' ts)
  have "qc_work h (p_tasks p + mset ts) = qc_work h (p_tasks p)" for h
    using propose(5) by (auto elim!: loop_step_frame)
  with propose(2) votes_for_propose(4,8) [OF propose(5)] show ?thesis
    by (intro kept_inv_frame [OF inv step]) simp_all
qed (intro kept_inv_frame [OF inv step]; simp)+

lemma kept_inv_all:
  assumes "through c p evs out ps q" and "proc_init c conf p"
  shows "kept_inv c ps (p_node q) (p_tasks q)"
  using assms
proof (induction rule: through.induct)
  case (through_nil p)
  then have "NewNode c conf = Ret (p_node p)" by (simp add: proc_init_def)
  from NewNode_Ret(8) [OF this] show ?case by (simp add: kept_inv_def lookup_bool_def)
next
  case (through_snoc p evs out ps q ev out' r)
  have "node_inv c q"
    using running.inv_reachable through_reachable [OF through_snoc(1,4)] by blast
  from kept_inv_step [OF this through_snoc(3) [OF through_snoc(4)] through_snoc(2)] show ?case .
qed

section \<open>An idle node is caught up\<close>

definition idle :: "('ps, 'pp) proc \<Rightarrow> bool" where
  "idle p \<longleftrightarrow> (\<forall>t. t \<in># p_tasks p \<longrightarrow> \<not> enabled (p_node p) t)"

lemma idle_tasks:
  assumes "idle p" "\<not> lock_kept (p_node p)" "t \<in># p_tasks p"
  shows "\<exists>h. t = SendHeight h"
  using assms by (cases t) (auto simp: idle_def)

lemma idle_no_work:
  assumes "idle p" "\<not> lock_kept (p_node p)"
  shows "qc_work h (p_tasks p) = 0"
proof -
  have "\<not> qc_task h t" if "t \<in># p_tasks p" for t using idle_tasks [OF assms that] by auto
  then have "filter_mset (qc_task h) (p_tasks p) = {#}"
    by (metis (mono_tags, lifting) filter_mset_False filter_mset_cong)
  then show ?thesis by (simp add: qc_work_def)
qed

lemma idle_certified:
  assumes "proc_init c conf p0" and "through c p0 evs out ps p" and "idle p" and "has_quorum (p_node p) h s"
  shows "certificate_kept c ps (p_node p) h"
proof -
  note reach = through_reachable [OF assms(2,1)]
  note free = reachable_unlocked [OF reach]
  have "lookup_bool (qcCreated (p_node p)) h"
    using reachable_inv(7) [OF reach] idle_tasks [OF assms(3) free] assms(4)
    by (fastforce simp: wake_inv_def wake_quorum_def)
  with kept_inv_all [OF assms(2,1)] idle_no_work [OF assms(3) free] show ?thesis
    by (auto simp: kept_inv_def)
qed

text \<open>C12: When no goroutine of a node can run, the node is caught up with what it has
  received. For every height for which it holds a block with a quorum of votes, a certificate
  was built for a block at that height with a recorded quorum, and that certified block waits
  in \<open>pendingBlocksQC\<close> or was put on top of the committed chain at some moment of the
  run (what is committed can be overwritten later, so it need not be there still). No waiting
  certified block is the next one of the committed chain. And no held block extends the
  candidate chain.\<close>

theorem idle_node_is_caught_up:
  assumes "proc_init c conf p0" and "through c p0 evs out ps p" and "idle p"
  shows "(\<forall>h s. quorumNum (p_node p) \<le> int (map_len (votes_for (p_node p) h s)) \<longrightarrow>
        pending_block (p_node p) h s \<noteq> None \<longrightarrow> certificate_kept c ps (p_node p) h) \<and>
    fmlookup (pendingBlocksQC (p_node p)) (chain_height (chain (p_node p)) + 1) = None \<and>
    (fmlookup (cc_blocks (candidateChain (p_node p))) (cc_height (candidateChain (p_node p)) + 1) = None \<longrightarrow>
     fmlookup (pendingBlocks (p_node p)) (cc_height (candidateChain (p_node p)) + 1) = None)"
proof (intro conjI allI impI)
  fix h s assume "quorumNum (p_node p) \<le> int (map_len (votes_for (p_node p) h s))"
    "pending_block (p_node p) h s \<noteq> None"
  then show "certificate_kept c ps (p_node p) h"
    by (intro idle_certified [OF assms]) (simp add: has_quorum_def)
next
  note reach = through_reachable [OF assms(2,1)]
  note tasks = idle_tasks [OF assms(3) reachable_unlocked [OF reach]]
  note wake = reachable_inv(7) [OF reach]
  show "fmlookup (pendingBlocksQC (p_node p)) (chain_height (chain (p_node p)) + 1) = None"
    using wake tasks by (fastforce simp: wake_inv_def wake_chain_def)
  assume "fmlookup (cc_blocks (candidateChain (p_node p))) (cc_height (candidateChain (p_node p)) + 1) = None"
  then show "fmlookup (pendingBlocks (p_node p)) (cc_height (candidateChain (p_node p)) + 1) = None"
    using wake tasks by (fastforce simp: wake_inv_def wake_candidate_def Let_def)
qed

lemma idle_exec:
  "\<exists>l. exec toy one (commit_a @ [DoRun (CheckIfQuorumVotes 1 ''61'') [], DoRun TryExtendCandidateChain [],
      DoRun TryExtendChain []]) = Some (l, [MsgVote (toy_vote ''a'' blk_a)]) \<and>
     snd l = [SendHeight 1] \<and> candidateHeightUpdated (fst l) = [0] \<and>
     quorumNum (fst l) \<le> int (map_len (votes_for (fst l) 1 ''61'')) \<and> pending_block (fst l) 1 ''61'' \<noteq> None"
  by (simp add: exec_simps commit_a_def)

theorem idle_node_is_caught_up_witness:
  "\<exists>p0 evs ps p. proc_init toy one p0 \<and> through toy p0 evs [MsgVote (toy_vote ''a'' blk_a)] ps p \<and> idle p \<and>
     certificate_kept toy ps (p_node p) 1"
proof -
  obtain l where l: "exec toy one (commit_a @ [DoRun (CheckIfQuorumVotes 1 ''61'') [],
      DoRun TryExtendCandidateChain [], DoRun TryExtendChain []]) =
      Some (l, [MsgVote (toy_vote ''a'' blk_a)])"
    "snd l = [SendHeight 1]" "candidateHeightUpdated (fst l) = [0]"
    "quorumNum (fst l) \<le> int (map_len (votes_for (fst l) 1 ''61''))" "pending_block (fst l) 1 ''61'' \<noteq> None"
    using idle_exec by blast
  have idle: "idle (live_proc l)" using l(2,3) by (simp add: idle_def live_proc_def)
  obtain p0 evs where run: "proc_init toy one p0"
    "proc_run toy p0 evs [MsgVote (toy_vote ''a'' blk_a)] (live_proc l)"
    using exec_run_of [OF l(1)] by blast
  obtain ps where ps: "through toy p0 evs [MsgVote (toy_vote ''a'' blk_a)] ps (live_proc l)"
    using run_through [OF run(2)] by blast
  have "p_node (live_proc l) = fst l" by (simp add: live_proc_def)
  with idle_node_is_caught_up [OF run(1) ps idle, THEN conjunct1] l(4,5)
  have "certificate_kept toy ps (p_node (live_proc l)) 1" by simp
  with run(1) ps idle show ?thesis by blast
qed

end
