(* ===== verification/Scenarios.thy ===== *)
theory Scenarios
  imports Node_Panics Node_Liveness
begin

text \<open>
  Concrete runs of a node in a cluster of four with a quorum of three, which show what the
  protocol code does not promise: a node with a certified block whose ancestor is missing
  panics, and so does one that counts an invalid partial signature; two nodes that receive
  the same votes commit different blocks at a height; and a committed block is replaced. In
  the last two every vote is one that a correct member casts, one per height.
\<close>

abbreviation four :: "(unit, unit) Config" where
  "four \<equiv> toy_config [''a'', ''b'', ''c'', ''d'']"

text \<open>Three members vote for a block.\<close>

definition three_vote :: "Block \<Rightarrow> choice list" where
  "three_vote b = count_vote ''a'' b @ count_vote ''b'' b @ count_vote ''c'' b @
     certify b [''c'', ''b'', ''a'']"

section \<open>A missing ancestor\<close>

text \<open>Block \<open>b\<close> names a parent that nobody has; \<open>c\<close> extends \<open>b\<close> and is certified.\<close>

abbreviation lost_b :: Block where "lost_b \<equiv> blk CHR ''b'' 2 CHR ''x''"
abbreviation over_b :: Block where "over_b \<equiv> blk CHR ''c'' 3 CHR ''b''"

definition lost_parent :: "choice list" where
  "lost_parent = file_block blk_a @ grow @ file_block lost_b @ grow @ file_block over_b @
     three_vote over_b"

lemma lost_parent_exec:
  "\<exists>n ts. exec toy four lost_parent = Some ((n, ts), []) \<and>
     CommitAncestor \<lparr>bq_Block = over_b, QC = Some [9]\<rparr> \<in> set ts \<and> \<not> lock_kept n \<and>
     CommitAncestorByBlockQC n \<lparr>bq_Block = over_b, QC = Some [9]\<rparr> = Panic NilDereference"
  by (simp add: exec_simps lost_parent_def three_vote_def)

lemma exec_panic:
  assumes "exec c conf chs = Some ((n, ts), out)" and "t \<in> set ts" and "enabled n t"
    and "order_ok n t order" and "run_task c order n t = Panic e"
  shows "\<exists>p q. reachable (proc_init c conf) (proc_next c) p \<and> proc_step c p (Run t) [] q \<and>
    p_crashed q \<and> p_node p = n"
proof -
  let ?p = "live_proc (n, ts)"
  have "proc_step c ?p (Run t) [] (?p\<lparr>p_crashed := True\<rparr>)"
    by (rule proc_step.run_panic [where rest = "mset (remove1 t ts)"])
      (use assms in \<open>simp_all add: live_proc_def\<close>)
  with exec_reachable [OF assms(1)] show ?thesis by (fastforce simp: live_proc_def)
qed

text \<open>C16: A proposal with an unknown parent takes the cluster down: \<open>validateBlockMsg\<close>
  accepts every block, so the members vote for it and for the blocks above it, and a node
  that then commits a certified descendant dereferences nil in
  \<open>CommitAncestorByBlockQC\<close>.\<close>

theorem missing_ancestor_crashes:
  "\<exists>p q. reachable (proc_init toy four) (proc_next toy) p \<and>
     proc_step toy p (Run (CommitAncestor \<lparr>bq_Block = over_b, QC = Some [9]\<rparr>)) [] q \<and> p_crashed q"
proof -
  obtain n ts where s: "exec toy four lost_parent = Some ((n, ts), [])"
    "CommitAncestor \<lparr>bq_Block = over_b, QC = Some [9]\<rparr> \<in> set ts" "\<not> lock_kept n"
    "CommitAncestorByBlockQC n \<lparr>bq_Block = over_b, QC = Some [9]\<rparr> = Panic NilDereference"
    using lost_parent_exec by blast
  from exec_panic [OF s(1,2), of "[]" NilDereference] s(3,4) show ?thesis by auto
qed


section \<open>An invalid partial signature\<close>

definition bad_vote :: VoteWithPartialSig where
  "bad_vote = (toy_vote ''d'' blk_a)\<lparr>PartialSig := Some [0]\<rparr>"

lemma bad_vote_sel [simp]:
  "Sender bad_vote = ''d''" "PartialSig bad_vote = Some [0]"
  "v_PlainVote bad_vote = v_PlainVote (toy_vote ''d'' blk_a)"
  by (simp_all add: bad_vote_def)

definition bad_share :: "choice list" where
  "bad_share = file_block blk_a @ count_vote ''a'' blk_a @ count_vote ''b'' blk_a @
     [DoReceive (MsgVote bad_vote) [], DoRun (HandleVoteMsg bad_vote) [],
      DoRun (CheckIfQuorumVotes 1 ''61'') []]"

lemma bad_share_exec:
  "\<exists>n ts. exec toy four bad_share = Some ((n, ts), []) \<and> BuildBlockWithQC 1 ''61'' \<in> set ts \<and>
     \<not> lock_kept n \<and>
     map_order (votes_for n 1 ''61'') [(''d'', Some [0]), (''b'', Some [1]), (''a'', Some [1])] \<and>
     buildBlockWithQC toy [(''d'', Some [0]), (''b'', Some [1]), (''a'', Some [1])] n 1 ''61'' =
       Panic (PanicError (ErrExternal ''tbls''))"
  by (simp add: exec_simps bad_share_def)

text \<open>C17: One faulty member can take every node down with a vote: \<open>validateVoteMsg\<close> accepts
  every vote, the partial signature is not checked when it is counted, and when the library
  reports it in \<open>AssembleIntactTSPartial\<close> the node panics.\<close>

theorem invalid_partial_signature_crashes:
  "\<exists>p q. reachable (proc_init toy four) (proc_next toy) p \<and>
     proc_step toy p (Run (BuildBlockWithQC 1 ''61'')) [] q \<and> p_crashed q"
proof -
  let ?o = "[(''d'', Some [0]), (''b'', Some [1]), (''a'', Some [1 :: u8])]"
  obtain n ts where s: "exec toy four bad_share = Some ((n, ts), [])"
    "BuildBlockWithQC 1 ''61'' \<in> set ts" "\<not> lock_kept n" "map_order (votes_for n 1 ''61'') ?o"
    "buildBlockWithQC toy ?o n 1 ''61'' = Panic (PanicError (ErrExternal ''tbls''))"
    using bad_share_exec by blast
  from exec_panic [OF s(1,2), of ?o "PanicError (ErrExternal ''tbls'')"] s(3,4,5)
  show ?thesis by auto
qed

section \<open>Two certified branches\<close>

text \<open>
  Blocks \<open>a\<close> and \<open>b\<close> at height 1, \<open>c\<close> above \<open>b\<close> at height 2, \<open>d\<close> above \<open>c\<close> at height 3.
  The members vote for \<open>a\<close> at height 1 and for \<open>c\<close> at height 2.
\<close>

abbreviation blk_b :: Block where "blk_b \<equiv> blk CHR ''b'' 1 CHR ''C''"
abbreviation blk_c :: Block where "blk_c \<equiv> blk CHR ''c'' 2 CHR ''b''"
abbreviation blk_d :: Block where "blk_d \<equiv> blk CHR ''d'' 3 CHR ''c''"

definition both_filed :: "choice list" where
  "both_filed = file_block blk_a @ grow @ file_block blk_b @ file_block blk_c @ grow @ file_block blk_d @ grow"

definition first_a :: "choice list" where
  "first_a = both_filed @ three_vote blk_a @ apply_qc blk_a @ three_vote blk_c @ apply_qc blk_c"

definition first_c :: "choice list" where
  "first_c = both_filed @ three_vote blk_c @ apply_qc blk_c"

definition then_a :: "choice list" where
  "then_a = three_vote blk_a @ apply_qc blk_a"

definition entry :: "('ps, 'pp) proc \<Rightarrow> u64 \<Rightarrow> Block option" where
  "entry p h = map_option bq_Block (fmlookup (chain_blocks (chain (p_node p))) h)"

lemma first_a_exec:
  "\<exists>l. exec toy four first_a = Some (l, []) \<and> chain_height (chain (fst l)) = 2 \<and>
     fmlookup (chain_blocks (chain (fst l))) 1 = Some \<lparr>bq_Block = blk_a, QC = Some [9]\<rparr> \<and>
     fmlookup (chain_blocks (chain (fst l))) 2 = Some \<lparr>bq_Block = blk_c, QC = Some [9]\<rparr>"
  by (simp add: exec_simps first_a_def both_filed_def three_vote_def)

lemma first_c_exec:
  "\<exists>l. exec toy four first_c = Some (l, []) \<and> chain_height (chain (fst l)) = 2 \<and>
     fmlookup (chain_blocks (chain (fst l))) 1 = Some \<lparr>bq_Block = blk_b, QC = Some [9]\<rparr> \<and>
     fmlookup (chain_blocks (chain (fst l))) 2 = Some \<lparr>bq_Block = blk_c, QC = Some [9]\<rparr> \<and>
     (\<exists>l'. exec_run toy then_a l [] = Some (l', []) \<and> chain_height (chain (fst l')) = 1 \<and>
        fmlookup (chain_blocks (chain (fst l'))) 1 = Some \<lparr>bq_Block = blk_a, QC = Some [9]\<rparr>)"
  by (simp add: exec_simps first_c_def then_a_def both_filed_def three_vote_def)

text \<open>No member votes for two blocks at a height.\<close>

fun votes_in :: "event list \<Rightarrow> VoteWithPartialSig list" where
  "votes_in [] = []"
| "votes_in (Receive (MsgVote v) sig # evs) = v # votes_in evs"
| "votes_in (ev # evs) = votes_in evs"

definition honest_votes :: "event list \<Rightarrow> bool" where
  "honest_votes evs \<longleftrightarrow>
     list_all (\<lambda>v. list_all (\<lambda>v'.
        Sender v = Sender v' \<and> BlockHeight (v_PlainVote v) = BlockHeight (v_PlainVote v') \<longrightarrow>
        v_PlainVote v = v_PlainVote v') (votes_in evs)) (votes_in evs)"

lemma votes_in_append [simp]: "votes_in (evs @ evs') = votes_in evs @ votes_in evs'"
  by (induction evs rule: votes_in.induct) simp_all

lemma toy_vote_plain [simp]: "v_PlainVote (toy_vote name b) = plain_vote toy b"
  by (simp add: toy_vote_def del: toy_vote_fold)

lemma plain_vote_height [simp]: "BlockHeight (plain_vote c b) = Height b"
  by (simp add: plain_vote_eq)

lemma runs_votes_in:
  "votes_in (map event_of first_a) = map (\<lambda>x. toy_vote x blk_a) [''a'', ''b'', ''c''] @
     map (\<lambda>x. toy_vote x blk_c) [''a'', ''b'', ''c'']"
  "votes_in (map event_of first_c) = map (\<lambda>x. toy_vote x blk_c) [''a'', ''b'', ''c'']"
  "votes_in (map event_of then_a) = map (\<lambda>x. toy_vote x blk_a) [''a'', ''b'', ''c'']"
  by (simp_all add: first_a_def first_c_def then_a_def both_filed_def three_vote_def file_block_def
      count_vote_def certify_def grow_def apply_qc_def)

text \<open>C18: Two nodes can commit different blocks at the same height although no member votes
  twice at a height: where the certificates for \<open>a\<close> and for \<open>c\<close>, a child of \<open>b\<close>, both exist,
  the node that applies \<open>a\<close>'s first keeps \<open>a\<close>, and the node that applies \<open>c\<close>'s first
  commits \<open>b\<close> as its ancestor. The first node's chain then has \<open>c\<close> above \<open>a\<close>, which is
  not its parent.\<close>

theorem commits_can_diverge:
  "\<exists>p0 q0 p q evs evs'. proc_init toy four p0 \<and> proc_init toy four q0 \<and>
     proc_run toy p0 evs [] p \<and> proc_run toy q0 evs' [] q \<and> honest_votes (evs @ evs') \<and>
     chain_height (chain (p_node p)) = 2 \<and> chain_height (chain (p_node q)) = 2 \<and>
     entry p 1 = Some blk_a \<and> entry q 1 = Some blk_b \<and>
     entry p 2 = Some blk_c \<and> entry q 2 = Some blk_c"
proof -
  obtain l where l: "exec toy four first_a = Some (l, [])" "chain_height (chain (fst l)) = 2"
    "fmlookup (chain_blocks (chain (fst l))) 1 = Some \<lparr>bq_Block = blk_a, QC = Some [9]\<rparr>"
    "fmlookup (chain_blocks (chain (fst l))) 2 = Some \<lparr>bq_Block = blk_c, QC = Some [9]\<rparr>"
    using first_a_exec by blast
  obtain k where k: "exec toy four first_c = Some (k, [])" "chain_height (chain (fst k)) = 2"
    "fmlookup (chain_blocks (chain (fst k))) 1 = Some \<lparr>bq_Block = blk_b, QC = Some [9]\<rparr>"
    "fmlookup (chain_blocks (chain (fst k))) 2 = Some \<lparr>bq_Block = blk_c, QC = Some [9]\<rparr>"
    using first_c_exec by blast
  obtain p0 where p: "proc_init toy four p0"
    "proc_run toy p0 (map event_of first_a) [] (live_proc l)" using exec_run_of [OF l(1)] by blast
  obtain q0 where q: "proc_init toy four q0"
    "proc_run toy q0 (map event_of first_c) [] (live_proc k)" using exec_run_of [OF k(1)] by blast
  have "honest_votes (map event_of first_a @ map event_of first_c)"
    by (simp add: honest_votes_def runs_votes_in)
  moreover have "chain_height (chain (p_node (live_proc l))) = 2"
    "chain_height (chain (p_node (live_proc k))) = 2"
    "entry (live_proc l) 1 = Some blk_a" "entry (live_proc k) 1 = Some blk_b"
    "entry (live_proc l) 2 = Some blk_c" "entry (live_proc k) 2 = Some blk_c"
    using l(2-4) k(2-4) by (simp_all add: entry_def live_proc_def)
  ultimately show ?thesis using p q by blast
qed

text \<open>C19: A committed block can be replaced and the committed height can fall, again with one
  vote per member and height: \<open>CommitAncestorByBlockQC\<close> sets the height to that of the
  certified block's parent even when more is committed, and \<open>tryExtendChain\<close> then writes the
  late certificate's block over the committed one.\<close>

theorem committed_block_can_be_replaced:
  "\<exists>p0 p q evs evs'. proc_init toy four p0 \<and> proc_run toy p0 evs [] p \<and>
     proc_run toy p evs' [] q \<and> honest_votes (evs @ evs') \<and>
     chain_height (chain (p_node p)) = 2 \<and> entry p 1 = Some blk_b \<and>
     chain_height (chain (p_node q)) = 1 \<and> entry q 1 = Some blk_a"
proof -
  obtain k k' where k: "exec toy four first_c = Some (k, [])" "chain_height (chain (fst k)) = 2"
    "fmlookup (chain_blocks (chain (fst k))) 1 = Some \<lparr>bq_Block = blk_b, QC = Some [9]\<rparr>"
    and k': "exec_run toy then_a k [] = Some (k', [])" "chain_height (chain (fst k')) = 1"
    "fmlookup (chain_blocks (chain (fst k'))) 1 = Some \<lparr>bq_Block = blk_a, QC = Some [9]\<rparr>"
    using first_c_exec by blast
  obtain p0 where p: "proc_init toy four p0"
    "proc_run toy p0 (map event_of first_c) [] (live_proc k)" using exec_run_of [OF k(1)] by blast
  have q: "proc_run toy (live_proc k) (map event_of then_a) [] (live_proc k')"
    using exec_run_sound [OF k'(1)] by simp
  have "honest_votes (map event_of first_c @ map event_of then_a)"
    by (simp add: honest_votes_def runs_votes_in)
  moreover have "chain_height (chain (p_node (live_proc k))) = 2"
    "chain_height (chain (p_node (live_proc k'))) = 1"
    "entry (live_proc k) 1 = Some blk_b" "entry (live_proc k') 1 = Some blk_a"
    using k(2,3) k'(2,3) by (simp_all add: entry_def live_proc_def)
  ultimately show ?thesis using p q by blast
qed

end
