(* ===== verification/Transport_Node.thy ===== *)
theory Transport_Node
  imports Transport_Properties Scenarios
begin

text \<open>
  The node over its transport: what a successful \<open>broadcast\<close> puts on the wires, that the
  receiving transport and message loop turn it into the handler's call, and what becomes of
  a vote when one of the peers is down.
\<close>

section \<open>A cluster on four hosts\<close>

definition spread :: "(unit, unit) Config" where
  "spread = four\<lparr>conf_ClusterAddr :=
     fmap_of_list [(''a'', ''A''), (''b'', ''B''), (''c'', ''C''), (''d'', ''D'')]\<rparr>"

definition spread_peers :: "(string \<times> string) list" where
  "spread_peers = [(''a'', ''A''), (''b'', ''B''), (''c'', ''C''), (''d'', ''D'')]"

definition node_a :: "(unit, unit) node" where
  "node_a = (case NewNode toy spread of Ret n \<Rightarrow> n)"

definition transport_a :: NetworkTransport where
  "transport_a = NewNetworkTransport 3 reflectedTypesMap"

text \<open>A network with a connection to each host that is up, and a codec for one message.\<close>

definition hosts_net :: "string set \<Rightarrow> net" where
  "hosts_net down =
     \<lparr>net_Dial = (\<lambda>target. if take 1 target \<in> down then Inl (ErrExternal ''dial'')
        else Inr (of_char (hd target))),
      net_Write = (\<lambda>h s p. Wrote), net_Close = (\<lambda>h. None)\<rparr>"

definition const_codec :: "'v \<Rightarrow> 'v msgpack" where
  "const_codec m =
     \<lparr>mp_Encode = (\<lambda>v. Inr [0]), mp_EncodeSig = mp_EncodeSig byte_codec,
      mp_Decode = (\<lambda>tag bs. Inr (m, 1)), mp_DecodeSig = mp_DecodeSig byte_codec\<rparr>"

lemma const_codec_ok: "msgpack_ok (const_codec m) tag {m}"
  using byte_codec_ok by (simp add: msgpack_ok_def const_codec_def)

lemma node_a_sel [simp]:
  "NewNode toy spread = Ret node_a" "clusterAddr node_a = fmap_of_list spread_peers"
  "map_order (fmap_of_list spread_peers) spread_peers"
  "port_string (clusterPort node_a) ''a'' = ''8000''" "port_string (clusterPort node_a) ''b'' = ''8000''"
  "port_string (clusterPort node_a) ''c'' = ''8000''" "port_string (clusterPort node_a) ''d'' = ''8000''"
  "length (privateKey node_a) = 64" "fmlookup (publicKeyMap node_a) ''a'' = Some (replicate 32 0)"
  "node_name node_a = ''a''" "voted node_a = fmempty"
  by (simp_all add: node_a_def spread_def exec_simps spread_peers_def map_order_def port_string_def json_int_def
      decimal.simps dec_digit_def)

section \<open>From broadcast to handler\<close>

lemma msg_tag_reflected [simp]: "msg_tag m \<in> reflectedTypesMap"
  by (cases m) (simp_all add: reflectedTypesMap_def)

text \<open>C23: A broadcast that reports success has put the message on the wire to every peer that is
  not excluded: each has a connection leading to its address, and a connection has sent, after
  what it had sent before, one signed frame of the message for each peer it was used for.\<close>

theorem broadcast_reaches_every_peer:
  assumes "broadcast c net mp n msg exc peers t w = Ret (t', w', None)" and "pool_shape t"
  shows "\<exists>sig hs body. broadcast_sig c n msg = Ret (Inr sig) \<and>
    list_all2 (leads_to net t) (targets (clusterPort n) exc peers) hs \<and>
    (hs = [] \<or> mp_Encode mp msg = Inr body) \<and>
    (\<forall>h. wire_sent w' h = wire_sent w h @
       concat (replicate (count_list hs h) (frame mp (msg_tag msg) body (Some sig))))"
  using broadcast_sends [OF assms] by metis

text \<open>C20: A message that was broadcast reaches the handler of every peer that has the sender's
  public key: the frame passes the peer's transport as that message with its signature,
  whatever follows it on the connection, and the signature, made over the JSON encoding of
  what was sent, verifies over the JSON encoding of what was received, so that the message
  loop starts the handler for the message's type.\<close>

theorem broadcast_message_is_dispatched:
  assumes "broadcast c net mp n msg exc peers t w = Ret (t', w', None)"
    and "pool_shape t" and "targets (clusterPort n) exc peers \<noteq> []"
    and "msgpack_ok mp msg_tag V" and "msg \<in> V"
    and "fmlookup (publicKeyMap n2) (claimed_sender msg) = Some pk" and "length pk = 32"
    and "\<forall>m. ed25519_Verify c pk m (ed25519_Sign c (privateKey n) m)"
    and "reflectedTypes t2 = reflectedTypesMap" and "\<not> IsShutdown t2"
  shows "\<exists>sig hs bs. list_all2 (leads_to net t) (targets (clusterPort n) exc peers) hs \<and>
    (\<forall>h. wire_sent w' h = wire_sent w h @ concat (replicate (count_list hs h) bs)) \<and>
    (\<forall>stop down rest. handleMsg mp t2 stop down (bs @ rest) =
       Inr (\<lparr>Msg = msg, Sig = Some sig\<rparr>, rest)) \<and>
    HandleMsgsLoop_turn c n2 msg sig = Ret [handler_task msg]"
proof -
  obtain sig hs body where sig: "broadcast_sig c n msg = Ret (Inr sig)"
    and hs: "list_all2 (leads_to net t) (targets (clusterPort n) exc peers) hs"
    and body: "hs \<noteq> [] \<longrightarrow> mp_Encode mp msg = Inr body"
    and sent: "\<forall>h. wire_sent w' h = wire_sent w h @
       concat (replicate (count_list hs h) (frame mp (msg_tag msg) body (Some sig)))"
    by (rule broadcast_sends [OF assms(1,2)])
  have "hs \<noteq> []" using hs assms(3) by auto
  with body have "mp_Encode mp msg = Inr body" by simp
  note f = handleMsg_frame [OF assms(4,5) this, of t2]
  have "HandleMsgsLoop_turn c n2 msg sig = Ret [handler_task msg]"
    using sig assms(6-8)
    by (auto simp: broadcast_sig_def HandleMsgsLoop_turn_def verifySigED25519_def SignEd25519_def
        VerifySignEd25519_def Let_def split: if_splits)
  moreover have "\<forall>stop down rest. handleMsg mp t2 stop down (frame mp (msg_tag msg) body (Some sig) @ rest) =
       Inr (\<lparr>Msg = msg, Sig = Some sig\<rparr>, rest)"
    using f assms(9,10) by simp
  ultimately show ?thesis using hs sent by blast
qed

abbreviation vote_a :: message where "vote_a \<equiv> MsgVote (toy_vote ''a'' blk_a)"

lemma transport_a_sel [simp]:
  "pool_shape transport_a" "reflectedTypes transport_a = reflectedTypesMap" "\<not> IsShutdown transport_a"
  by (simp_all add: transport_a_def NewNetworkTransport_eq pool_shape_def pooled_def IsShutdown_def)

lemma spread_targets [simp]:
  "targets (clusterPort node_a) {} spread_peers = [''A:8000'', ''B:8000'', ''C:8000'', ''D:8000'']"
  by (simp add: spread_peers_def)

lemma vote_a_sig:
  "\<exists>sig. broadcast_sig toy node_a vote_a = Ret (Inr sig)"
  by (simp add: broadcast_sig_def SignEd25519_def Let_def)

lemma broadcast_up:
  "\<exists>t w. broadcast toy (hosts_net {}) (const_codec vote_a) node_a vote_a {} spread_peers transport_a
     quiet_wires = Ret (t, w, None)"
  by (simp add: broadcast_def broadcast_sig_def SignEd25519_def Let_def spread_peers_def hosts_net_def
      transport_a_def NewNetworkTransport_eq GetConn_def dialConn_def ReturnConn_def SendMsg_def WriteByte_def
      Write_def Flush_def conn_Write_def const_codec_def buf_size_def IsShutdown_def byte_codec_def)

theorem broadcast_reaches_every_peer_witness:
  "\<exists>t w hs. broadcast toy (hosts_net {}) (const_codec vote_a) node_a vote_a {} spread_peers transport_a
     quiet_wires = Ret (t, w, None) \<and>
     list_all2 (leads_to (hosts_net {}) transport_a) [''A:8000'', ''B:8000'', ''C:8000'', ''D:8000''] hs"
proof -
  obtain t w where b: "broadcast toy (hosts_net {}) (const_codec vote_a) node_a vote_a {} spread_peers transport_a
     quiet_wires = Ret (t, w, None)" using broadcast_up by blast
  from broadcast_reaches_every_peer [OF b] b show ?thesis by auto
qed

theorem broadcast_message_is_dispatched_witness:
  "\<exists>t w sig. broadcast toy (hosts_net {}) (const_codec vote_a) node_a vote_a {} spread_peers transport_a
     quiet_wires = Ret (t, w, None) \<and> HandleMsgsLoop_turn toy node_a vote_a sig = Ret [handler_task vote_a]"
proof -
  obtain t w where b: "broadcast toy (hosts_net {}) (const_codec vote_a) node_a vote_a {} spread_peers transport_a
     quiet_wires = Ret (t, w, None)" using broadcast_up by blast
  from broadcast_message_is_dispatched [OF b _ _ const_codec_ok, of node_a "replicate 32 0" transport_a] b
  show ?thesis by auto
qed

section \<open>A peer that is down\<close>

text \<open>C24: One peer that cannot be reached keeps a message from every peer that comes after it
  in the iteration: \<open>broadcast\<close> returns the error with nothing sent but what the peers before
  it got.\<close>

theorem broadcast_stops_at_unreachable_peer:
  assumes "broadcast c net mp n msg exc before t w = Ret (t1, w1, None)"
    and "addr @ '':'' @ port_string (clusterPort n) name = a" and "a \<notin> exc"
    and "pooled t1 a = []" and "net_Dial net a = Inl err"
  shows "broadcast c net mp n msg exc (before @ (name, addr) # after) t w = Ret (t1, w1, Some err)"
proof -
  from assms(1) obtain sig where "broadcast_sig c n msg = Ret (Inr sig)"
    and "broadcast_loop net mp (clusterPort n) exc (msg_tag msg) msg (Some sig) before t w = (t1, w1, None)"
    by (cases "broadcast_sig c n msg") (auto simp: broadcast_def split: sum.splits)
  then show ?thesis
    using broadcast_loop_stops [OF _ assms(2-5)] by (simp add: broadcast_def)
qed

theorem broadcast_stops_at_unreachable_peer_witness:
  "broadcast toy (hosts_net {''A''}) (const_codec vote_a) node_a vote_a {} ([] @ (''a'', ''A'') # tl spread_peers)
     transport_a quiet_wires = Ret (transport_a, quiet_wires, Some (ErrExternal ''dial''))"
  by (rule broadcast_stops_at_unreachable_peer [where a = "''A:8000''"])
    (simp_all add: broadcast_def broadcast_sig_def SignEd25519_def Let_def hosts_net_def
      transport_a_def NewNetworkTransport_eq pooled_def)

text \<open>C25: A vote is lost for good when, at the time a node casts it, the first peer of the
  iteration is neither in the pool nor can be dialled: the broadcast returns the error with
  nothing sent to any peer, and because the height is marked as voted already, the node sends
  no vote at that height in any continuation of its run, whatever block it is for.\<close>

theorem vote_lost_when_first_peer_is_down:
  assumes "proc_init c conf p0" and "proc_run c p0 evs sent p"
    and "proc_step c p (Run (CastVote b v)) [MsgVote v] q"
    and "addr @ '':'' @ port_string (clusterPort (p_node q)) name = a"
    and "pooled t a = []" and "net_Dial net a = Inl err"
  shows "broadcast c net mp (p_node q) (MsgVote v) {} ((name, addr) # others) t w = Ret (t, w, Some err) \<and>
    (\<forall>evs' sent' r v'. proc_run c q evs' sent' r \<longrightarrow> MsgVote v' \<in> set sent' \<longrightarrow>
       BlockHeight (v_PlainVote v') \<noteq> Height b)"
proof (intro conjI allI impI)
  from assms(3) have task: "CastVote b v \<in># p_tasks p" and key: "length (privateKey (p_node q)) = 64"
    by (cases rule: proc_step.cases; auto simp: castVote_eq split: if_splits)+
  have "\<exists>sig. broadcast_sig c (p_node q) (MsgVote v) = Ret (Inr sig)"
    using key by (simp add: broadcast_sig_def SignEd25519_def Let_def)
  moreover have "broadcast_loop net mp ports {} tag msg sig ([] @ (name, addr) # others) t w = (t, w, Some err)"
    if "ports = clusterPort (p_node q)" for ports tag msg sig
    by (rule broadcast_loop_stops) (use that assms(4-6) in simp_all)
  ultimately show "broadcast c net mp (p_node q) (MsgVote v) {} ((name, addr) # others) t w = Ret (t, w, Some err)"
    by (auto simp: broadcast_def)
  fix evs' sent' r v'
  assume run: "proc_run c q evs' sent' r" and v': "MsgVote v' \<in> set sent'"
  have height: "BlockHeight (v_PlainVote v) = Height b"
    using votes_run_inv_all [OF assms(2,1)] task
    by (fastforce simp: votes_run_inv_def vote_of_def plain_vote_eq)
  have "proc_run c p0 ((evs @ [Run (CastVote b v)]) @ evs') ((sent @ [MsgVote v]) @ sent') r"
    by (rule proc_run_trans [OF run proc_run.run_snoc [OF assms(2,3)]])
  from votes_run_inv_all [OF this assms(1)]
  have "length (filter (vote_at (Height b)) ((sent @ [MsgVote v]) @ sent')) \<le> 1"
    unfolding votes_run_inv_def by (metis (no_types, lifting) of_bool_less_eq_one order_trans)
  then have "filter (vote_at (Height b)) sent' = []" using height by simp
  with v' show "BlockHeight (v_PlainVote v') \<noteq> Height b" by (auto simp: filter_empty_conv)
qed

lemma about_to_vote:
  "\<exists>l l'. exec toy spread (file_block blk_a @ [DoRun (BroadcastVote blk_a) []]) = Some (l, []) \<and>
     exec_step toy (DoRun (CastVote blk_a (toy_vote ''a'' blk_a)) []) l = Some (l', [vote_a]) \<and>
     clusterPort (fst l') = fmap_of_list [(''a'', 8000), (''b'', 8000), (''c'', 8000), (''d'', 8000)]"
  by (simp add: exec_simps file_block_def spread_def toy_vote_def plain_vote_eq)

text \<open>The voter is \<open>a\<close>; its pool has a connection to each other host but \<open>B\<close>, and the iteration
  begins with \<open>b\<close>.\<close>

definition transport_acd :: NetworkTransport where
  "transport_acd = transport_a\<lparr>connPool := fmap_of_list (map (\<lambda>(a, h).
     (a, [\<lparr>nc_target = a, nc_conn = h, nc_w = \<lparr>w_buf = [], w_err = None\<rparr>\<rparr>]))
     [(''A:8000'', 1), (''C:8000'', 2), (''D:8000'', 3)])\<rparr>"

theorem vote_lost_when_first_peer_is_down_witness:
  "\<exists>p0 evs p q err. proc_init toy spread p0 \<and> proc_run toy p0 evs [] p \<and>
     proc_step toy p (Run (CastVote blk_a (toy_vote ''a'' blk_a))) [vote_a] q \<and>
     broadcast toy (hosts_net {''B''}) (const_codec vote_a) (p_node q) vote_a {}
       ((''b'', ''B'') # [(''a'', ''A''), (''c'', ''C''), (''d'', ''D'')]) transport_acd quiet_wires =
       Ret (transport_acd, quiet_wires, Some err)"
proof -
  obtain l l' where l: "exec toy spread (file_block blk_a @ [DoRun (BroadcastVote blk_a) []]) = Some (l, [])"
    "exec_step toy (DoRun (CastVote blk_a (toy_vote ''a'' blk_a)) []) l = Some (l', [vote_a])"
    "clusterPort (fst l') = fmap_of_list [(''a'', 8000), (''b'', 8000), (''c'', 8000), (''d'', 8000)]"
    using about_to_vote by blast
  obtain p0 evs where run: "proc_init toy spread p0" "proc_run toy p0 evs [] (live_proc l)"
    using exec_run_of [OF l(1)] by blast
  from exec_step_sound [OF l(2)]
  have step: "proc_step toy (live_proc l) (Run (CastVote blk_a (toy_vote ''a'' blk_a))) [vote_a] (live_proc l')" by simp
  have "''B'' @ '':'' @ port_string (clusterPort (p_node (live_proc l'))) ''b'' = ''B:8000''"
    by (simp add: live_proc_def l(3) port_string_def json_int_def decimal.simps dec_digit_def)
  from vote_lost_when_first_peer_is_down [OF run step this, of transport_acd "hosts_net {''B''}" "ErrExternal ''dial''"] run step
  show ?thesis
    by (simp add: hosts_net_def transport_acd_def pooled_def) blast
qed

theorem established_peers_are_pooled_witness:
  "\<exists>t w t' c. EstablishP2PConns (hosts_net {}) node_a spread_peers (Some transport_a) quiet_wires = (Some t, w, None) \<and>
     GetConn ((hosts_net {})\<lparr>net_Dial := \<lambda>_. Inl ErrNoTransport\<rparr>) t ''D:8000'' = (t', Inr c)"
proof -
  have "\<exists>t w. EstablishP2PConns (hosts_net {}) node_a spread_peers (Some transport_a) quiet_wires = (Some t, w, None)"
    by (simp add: EstablishP2PConns_def spread_peers_def hosts_net_def transport_a_def NewNetworkTransport_eq
        GetConn_def dialConn_def ReturnConn_def IsShutdown_def Let_def)
  then obtain t w where e: "EstablishP2PConns (hosts_net {}) node_a spread_peers (Some transport_a) quiet_wires = (Some t, w, None)"
    by blast
  have "0 < maxPool transport_a" by (simp add: transport_a_def NewNetworkTransport_eq)
  from established_peers_are_pooled [OF e _ _ this] e show ?thesis by auto
qed

end
