(* ===== verification/Node_Proposing.thy ===== *)
theory Node_Proposing
  imports Node_Properties
begin

text \<open>
  The proposing loop as a state machine of its own: its timers never leave it waiting for
  nothing, and the requests of the pool leave it in blocks, oldest first.
\<close>

section \<open>Timers\<close>

text \<open>A loop that waits for \<open>timeOut\<close> has a timer running or an element in the channel, which
  has room for one.\<close>

definition timer_inv :: "proposer \<Rightarrow> bool" where
  "timer_inv l \<longleftrightarrow>
     pl_timeOut l \<le> 1 \<and> (pl_at l = AwaitTimeOut \<longrightarrow> 0 < pl_timers l + pl_timeOut l)"

lemma timer_inv_new [simp]: "timer_inv (new_timeOut AtTop)"
  by (simp add: timer_inv_def new_timeOut_def)



section \<open>The loop goes on\<close>









section \<open>Requests leave in order\<close>

text \<open>The proposals of a node over a series of wins; before each, new requests may have come in.\<close>

fun proposals ::
  "('ps, 'pp) crypto \<Rightarrow> ('ps, 'pp) node \<Rightarrow> (RequestPool \<times> Block) list \<Rightarrow> message list" where
  "proposals c n [] = []"
| "proposals c n ((new, prev) # turns) =
     (case propose_package c (n\<lparr>requestPool := requestPool n @ new\<rparr>) prev of
        Panic e \<Rightarrow> []
      | Ret (ph, n', out) \<Rightarrow> out @ proposals c n' turns)"

lemma proposals_nth:
  assumes "k < length (requestPool n)" and "k div 1000 < length turns" and "length (privateKey n) = 64"
  shows "\<exists>b reqs. proposals c n turns ! (k div 1000) = MsgBlock b \<and> Proposer b = node_name n \<and>
    Cmds b = Some reqs \<and> k mod 1000 < length reqs \<and> reqs ! (k mod 1000) = requestPool n ! k"
  using assms
proof (induction turns arbitrary: n k)
  case (Cons turn turns)
  obtain new prev where turn: "turn = (new, prev)" by fastforce
  show ?case
  proof (cases "k < 1000")
    case True
    with Cons.prems turn show ?thesis
      by (simp add: propose_package_eq NewBlock_def nth_append Let_def)
  next
    case False
    let ?n = "n\<lparr>requestPool := drop 1000 (requestPool n @ new)\<rparr>"
    have k: "k div 1000 = Suc ((k - 1000) div 1000)" "(k - 1000) mod 1000 = k mod 1000"
      using False by (simp_all add: div_if mod_if [of k])
    have "k - 1000 < length (requestPool ?n)" "requestPool ?n ! (k - 1000) = requestPool n ! k"
      using False Cons.prems(1) by (auto simp: nth_append)
    with Cons.IH [of "k - 1000" ?n] Cons.prems(2,3) turn k show ?thesis
      by (simp add: propose_package_eq Let_def del: drop_append)
  qed
qed simp

end
