(* ===== verification/Startup.thy ===== *)
theory Startup
  imports Config_Properties Transport_Node Node_Proposing
begin

text \<open>
  The two programs around the node: \<open>main.go\<close>, which loads the configuration, creates the
  node and starts its listeners and connections before it enters the loops, and
  \<open>client/main.go\<close>, which sends one request to a node's RPC handler. A process ends by a
  panic, by \<open>log.Fatal\<close>, or goes on with its loops.
\<close>

section \<open>The server\<close>

text \<open>How \<open>rpc.Register\<close> and \<open>net.Listen\<close> for the RPC port end.\<close>

record rpc_env =
  rpc_Register :: "error option"
  rpc_Listen :: "string \<Rightarrow> error option"

datatype 'a ended = Continues 'a | Panics panic | Fatal error

definition StartRPCListen :: "rpc_env \<Rightarrow> ('ps, 'pp) node \<Rightarrow> (error option) ended" where
  "StartRPCListen env n =
     (case rpc_Register env of
        Some err \<Rightarrow> Continues (Some err)
      | None \<Rightarrow> (case rpc_Listen env ('':'' @ json_int (node_rpcListenPort n)) of
          Some err \<Rightarrow> Fatal err
        | None \<Rightarrow> Continues None))"

definition CanProposeBlock :: "('ps, 'pp) node \<Rightarrow> bool" where
  "CanProposeBlock n = node_canProposeBlock n"

text \<open>The node, its transport and whether it runs the proposing loop.\<close>

definition server_main ::
  "('ps, 'pp) crypto \<Rightarrow> net \<Rightarrow> (string \<Rightarrow> error option) \<Rightarrow> rpc_env \<Rightarrow> (string \<times> string) list \<Rightarrow> wires \<Rightarrow>
   (error + ('ps, 'pp) Config) outcome \<Rightarrow>
   (('ps, 'pp) node \<times> NetworkTransport \<times> wires \<times> bool) ended" where
  "server_main c net bind env peers w loaded =
     (case loaded of
        Panic e \<Rightarrow> Panics e
      | Ret (Inl err) \<Rightarrow> Panics (PanicError err)
      | Ret (Inr conf) \<Rightarrow>
     (case NewNode c conf of
        Panic e \<Rightarrow> Panics e
      | Ret node \<Rightarrow>
     (case StartP2PListen bind node of
        Inl err \<Rightarrow> Panics (PanicError err)
      | Inr t \<Rightarrow>
     (case StartRPCListen env node of
        Panics e \<Rightarrow> Panics e
      | Fatal err \<Rightarrow> Fatal err
      | Continues (Some err) \<Rightarrow> Panics (PanicError err)
      | Continues None \<Rightarrow>
     (case EstablishP2PConns net node peers (Some t) w of
        (tr, w', Some err) \<Rightarrow> Panics (PanicError err)
      | (None, w', None) \<Rightarrow> Panics NilDereference
      | (Some t', w', None) \<Rightarrow> Continues (node, t', w', CanProposeBlock node))))))"

section \<open>The client\<close>

record CMD =
  rpcAddress :: string
  rpcPort :: int
  reqText :: string

text \<open>
  What package \<open>net/rpc\<close> delivers of a request: it sends the value with \<open>encoding/gob\<close>, which
  leaves out a slice without elements, and decodes it into a new value, where the slice then
  is nil.
\<close>

fun gob_bytes :: "gobytes \<Rightarrow> gobytes" where
  "gob_bytes (Some (b # bs)) = Some (b # bs)"
| "gob_bytes _ = None"

definition gob_Request :: "Request \<Rightarrow> Request" where
  "gob_Request r = r\<lparr>Cmd := gob_bytes (Cmd r)\<rparr>"

text \<open>
  \<open>sendRequest\<close> against a server's handler and request pool: \<open>dial\<close> is how
  \<open>rpc.DialHTTP\<close> ends and \<open>call\<close> how the transport of the call does; the handler has run
  before the reply comes back. It returns what it prints.
\<close>

definition print_reply :: "Reply \<Rightarrow> string" where
  "print_reply r =
     ''Reply from node0: {'' @ rep_ServerName r @ '' '' @ decimal (unat (rep_SN r)) @ ''}'' @ [CHR 0x0A]"

definition sendRequest ::
  "CMD \<Rightarrow> (string \<Rightarrow> error option) \<Rightarrow> error option \<Rightarrow> RPCHandler \<times> RequestPool \<Rightarrow>
   (RPCHandler \<times> RequestPool) \<times> string outcome" where
  "sendRequest cmd dial call server =
     (case dial (rpcAddress cmd @ '':'' @ json_int (rpcPort cmd)) of
        Some err \<Rightarrow> (server, Panic (PanicError err))
      | None \<Rightarrow>
         (let req = \<lparr>Cmd = Some (bytes_of_string (reqText cmd))\<rparr>;
              (h, reqs) = server;
              (h', reqs', reply) = NewRequest h (gob_Request req) reqs in
          case call of
            Some err \<Rightarrow> ((h', reqs'), Panic (PanicError err))
          | None \<Rightarrow> ((h', reqs'), Ret (print_reply reply))))"

text \<open>
  The command line: \<open>Run\<close> describes its flags to the library \<open>cli\<close>, which parses the
  arguments, stores the values where the flags say, and calls the command's action.
  \<open>parse\<close> is the library: how parsing ends, with the values of the flags that were given.
  A flag that was not given gets its default, which is the zero value if none is declared.
\<close>

datatype destination = To_rpcAddress | To_rpcPort | To_reqText
datatype flag_value = StringValue string | IntValue int

datatype Flag =
    StringFlag (flag_Name: string) (flag_Required: bool) (flag_Value: string) (flag_Destination: destination)
  | IntFlag (flag_Name: string) (flag_Required: bool) (flag_Destination: destination)

record cli_command =
  command_Name :: string
  command_Flags :: "Flag list"

record cli_App =
  app_Flags :: "Flag list"
  app_Commands :: "cli_command list"

datatype cli_result =
    Action string "string \<Rightarrow> flag_value option"
  | NoAction
  | CliError error

definition client_app :: cli_App where
  "client_app =
     \<lparr>app_Flags = [StringFlag ''rpcaddress, a'' False ''127.0.0.1'' To_rpcAddress,
                   IntFlag ''rpcport, p'' True To_rpcPort],
      app_Commands = [\<lparr>command_Name = ''sendrequest'',
                       command_Flags = [StringFlag ''request, r'' True '''' To_reqText]\<rparr>]\<rparr>"

fun store_string :: "destination \<Rightarrow> string \<Rightarrow> CMD \<Rightarrow> CMD" where
  "store_string To_rpcAddress s cmd = cmd\<lparr>rpcAddress := s\<rparr>"
| "store_string To_reqText s cmd = cmd\<lparr>reqText := s\<rparr>"
| "store_string To_rpcPort s cmd = cmd"

fun set_flag :: "(string \<Rightarrow> flag_value option) \<Rightarrow> Flag \<Rightarrow> CMD \<Rightarrow> CMD" where
  "set_flag vals (StringFlag name req v dest) cmd =
     (case vals name of Some (StringValue s) \<Rightarrow> store_string dest s cmd | _ \<Rightarrow> store_string dest v cmd)"
| "set_flag vals (IntFlag name req dest) cmd =
     (case vals name of Some (IntValue i) \<Rightarrow> cmd\<lparr>rpcPort := i\<rparr> | _ \<Rightarrow> cmd\<lparr>rpcPort := 0\<rparr>)"

text \<open>\<open>Run\<close>, and \<open>main\<close>, which runs it on a new \<open>CMD\<close>: \<open>None\<close> where no action was called.\<close>

definition CMD_Run ::
  "(cli_App \<Rightarrow> string list \<Rightarrow> cli_result) \<Rightarrow> string list \<Rightarrow> CMD \<Rightarrow> (string \<Rightarrow> error option) \<Rightarrow>
   error option \<Rightarrow> RPCHandler \<times> RequestPool \<Rightarrow> (RPCHandler \<times> RequestPool) \<times> string option outcome" where
  "CMD_Run parse args cmd dial call server =
     (case parse client_app args of
        CliError err \<Rightarrow> (server, Panic (PanicError err))
      | NoAction \<Rightarrow> (server, Ret None)
      | Action name vals \<Rightarrow>
          (let flags = app_Flags client_app @ concat (map command_Flags
                 (filter (\<lambda>command. command_Name command = name) (app_Commands client_app)));
               cmd' = fold (set_flag vals) flags cmd in
           if name = ''sendrequest'' then
             (case sendRequest cmd' dial call server of
                (server', Ret printed) \<Rightarrow> (server', Ret (Some printed))
              | (server', Panic e) \<Rightarrow> (server', Panic e))
           else (server, Ret None)))"

definition client_main ::
  "(cli_App \<Rightarrow> string list \<Rightarrow> cli_result) \<Rightarrow> string list \<Rightarrow> (string \<Rightarrow> error option) \<Rightarrow>
   error option \<Rightarrow> RPCHandler \<times> RequestPool \<Rightarrow> (RPCHandler \<times> RequestPool) \<times> string option outcome" where
  "client_main parse args dial call server =
     CMD_Run parse args \<lparr>rpcAddress = '''', rpcPort = 0, reqText = ''''\<rparr> dial call server"

lemma NewNode_ports:
  "NewNode c conf = Ret node \<Longrightarrow> node_maxPool node = conf_MaxPool conf"
  "NewNode c conf = Ret node \<Longrightarrow> node_rpcListenPort node = conf_RPCListenPort conf"
  "NewNode c conf = Ret node \<Longrightarrow> node_canProposeBlock node = conf_CanProposeBlock conf"
  "NewNode c conf = Ret node \<Longrightarrow> requestPool node = []"
  by (auto simp: NewNode_def Let_def split: sum.splits)

section \<open>Properties\<close>

text \<open>The command as it arrives.\<close>

definition sent_text :: "string \<Rightarrow> gobytes" where
  "sent_text txt = (if txt = [] then None else Some (bytes_of_string txt))"

lemma gob_text: "gob_Request \<lparr>Cmd = Some (bytes_of_string txt)\<rparr> = \<lparr>Cmd = sent_text txt\<rparr>"
  by (cases "txt") (simp_all add: gob_Request_def sent_text_def bytes_of_string_def)

lemma sendRequest_queues:
  assumes "dial (rpcAddress cmd @ '':'' @ json_int (rpcPort cmd)) = None"
  shows "sendRequest cmd dial None (h, reqs) =
     ((h\<lparr>nextSN := nextSN h + 1\<rparr>,
       reqs @ [\<lparr>rw_Request = \<lparr>Cmd = sent_text (reqText cmd)\<rparr>,
                ServerName = nodeName h, SN = nextSN h\<rparr>]),
      Ret (''Reply from node0: {'' @ nodeName h @ '' '' @ decimal (unat (nextSN h)) @ ''}'' @ [CHR 0x0A]))"
  using assms
  by (simp add: sendRequest_def NewRequest_def take_SN_def append_request_def print_reply_def gob_text Let_def)

lemma client_main_queues:
  assumes "parse client_app args = Action ''sendrequest'' vals"
    and "vals ''rpcaddress, a'' = None" and "vals ''rpcport, p'' = Some (IntValue port)"
    and "vals ''request, r'' = Some (StringValue txt)"
    and "dial (''127.0.0.1:'' @ json_int port) = None"
  shows "client_main parse args dial None (h, reqs) =
     ((h\<lparr>nextSN := nextSN h + 1\<rparr>,
       reqs @ [\<lparr>rw_Request = \<lparr>Cmd = sent_text txt\<rparr>, ServerName = nodeName h, SN = nextSN h\<rparr>]),
      Ret (Some (''Reply from node0: {'' @ nodeName h @ '' '' @ decimal (unat (nextSN h)) @ ''}'' @ [CHR 0x0A])))"
  using assms sendRequest_queues [of dial "\<lparr>rpcAddress = ''127.0.0.1'', rpcPort = port, reqText = txt\<rparr>" h reqs]
  by (simp add: client_main_def CMD_Run_def client_app_def)

text \<open>C40: From the command line to a block: a client started with a port and a text, and no
  address, queues the text at the server on the local host (an empty text arrives as a nil
  slice) and prints the serial number the server gave it. Where the server's key has 64 bytes
  and \<open>k\<close> requests were waiting before it, the request is in the proposal
  the server makes after \<open>k div 1000\<close> others, at place \<open>k mod 1000\<close>, with that number, whatever
  requests come in later.\<close>

theorem client_request_is_proposed:
  assumes "parse client_app args = Action ''sendrequest'' vals"
    and "vals ''rpcaddress, a'' = None" and "vals ''rpcport, p'' = Some (IntValue port)"
    and "vals ''request, r'' = Some (StringValue txt)"
    and "dial (''127.0.0.1:'' @ json_int port) = None"
    and "k = length (requestPool n)" and "k div 1000 < length turns"
    and "length (privateKey n) = 64"
  shows "\<exists>h reqs b cmds.
    client_main parse args dial None (node_c n, requestPool n) =
      ((h, reqs), Ret (Some (''Reply from node0: {'' @ nodeName (node_c n) @ '' '' @
         decimal (unat (nextSN (node_c n))) @ ''}'' @ [CHR 0x0A]))) \<and>
    proposals c (n\<lparr>node_c := h, requestPool := reqs\<rparr>) turns ! (k div 1000) = MsgBlock b \<and>
    Proposer b = node_name n \<and> Cmds b = Some cmds \<and> k mod 1000 < length cmds \<and>
    cmds ! (k mod 1000) = \<lparr>rw_Request = \<lparr>Cmd = (if txt = [] then None else Some (bytes_of_string txt))\<rparr>,
      ServerName = nodeName (node_c n), SN = nextSN (node_c n)\<rparr>"
proof -
  let ?r = "\<lparr>rw_Request = \<lparr>Cmd = sent_text txt\<rparr>,
      ServerName = nodeName (node_c n), SN = nextSN (node_c n)\<rparr>"
  let ?h = "(node_c n)\<lparr>nextSN := nextSN (node_c n) + 1\<rparr>"
  let ?n = "n\<lparr>node_c := ?h, requestPool := requestPool n @ [?r]\<rparr>"
  note run = client_main_queues [where parse = parse and vals = vals and dial = dial and port = port,
      OF assms(1-5), of "node_c n" "requestPool n"]
  have "k < length (requestPool ?n)" "requestPool ?n ! k = ?r" using assms(6) by simp_all
  with proposals_nth [of k ?n turns c] assms(7,8) obtain b cmds where
    "proposals c ?n turns ! (k div 1000) = MsgBlock b" "Proposer b = node_name n"
    "Cmds b = Some cmds" "k mod 1000 < length cmds" "cmds ! (k mod 1000) = ?r" by auto
  with run show ?thesis unfolding sent_text_def by (intro exI conjI) assumption+
qed

theorem client_request_is_proposed_witness:
  "\<exists>h reqs b cmds. client_main (\<lambda>app args. Action ''sendrequest''
      [''rpcport, p'' \<mapsto> IntValue 9000, ''request, r'' \<mapsto> StringValue ''pay'']) [] (\<lambda>addr. None) None
      (node_c node_a, requestPool node_a) = ((h, reqs), Ret (Some (''Reply from node0: {'' @ nodeName (node_c node_a) @
         '' '' @ decimal (unat (nextSN (node_c node_a))) @ ''}'' @ [CHR 0x0A]))) \<and>
     proposals toy (node_a\<lparr>node_c := h, requestPool := reqs\<rparr>) [([], genesis)] ! 0 = MsgBlock b \<and>
     Cmds b = Some cmds \<and> Cmd (rw_Request (cmds ! 0)) = Some (bytes_of_string ''pay'')"
proof -
  let ?vals = "[''rpcport, p'' \<mapsto> IntValue 9000, ''request, r'' \<mapsto> StringValue ''pay'']"
  have empty: "0 = length (requestPool node_a)" using NewNode_ports(4) [OF node_a_sel(1)] by simp
  have turns: "0 div 1000 < length [([] :: RequestPool, genesis)]" by simp
  have "?vals ''rpcaddress, a'' = None" "?vals ''rpcport, p'' = Some (IntValue 9000)"
    "?vals ''request, r'' = Some (StringValue ''pay'')" by simp_all
  from client_request_is_proposed [where parse = "\<lambda>app args. Action ''sendrequest'' ?vals" and args = "[]"
      and dial = "\<lambda>addr. None" and c = toy, OF refl this refl empty turns]
  obtain h reqs b cmds where "client_main (\<lambda>app args. Action ''sendrequest'' ?vals) [] (\<lambda>addr. None) None
      (node_c node_a, requestPool node_a) = ((h, reqs), Ret (Some (''Reply from node0: {'' @ nodeName (node_c node_a) @
         '' '' @ decimal (unat (nextSN (node_c node_a))) @ ''}'' @ [CHR 0x0A])))"
    "proposals toy (node_a\<lparr>node_c := h, requestPool := reqs\<rparr>) [([], genesis)] ! 0 = MsgBlock b"
    "Cmds b = Some cmds" "Cmd (rw_Request (cmds ! 0)) = Some (bytes_of_string ''pay'')" by auto
  then show ?thesis by (intro exI conjI) assumption+
qed

lemma establish_loop_unreachable:
  assumes "(name, addr) \<in> set peers"
    and "net_Dial net (addr @ '':'' @ port_string ports name) = Inl e"
    and "\<And>target. pooled t target \<noteq> [] \<Longrightarrow> \<exists>h. net_Dial net target = Inr h"
    and "pool_shape t"
  shows "\<exists>t' w' err. establish_loop net ports peers t w = (t', w', Some err)"
  using assms
proof (induction net ports peers t w rule: establish_loop.induct)
  case (2 net ports n a peers t w)
  let ?a = "a @ '':'' @ port_string ports n"
  show ?case
  proof (cases "GetConn net t ?a")
    case (Pair t1 r)
    show ?thesis
    proof (cases r)
      case (Inl err)
      with Pair show ?thesis by simp
    next
      case (Inr c)
      have get: "GetConn net t ?a = (t1, Inr c)" using Pair Inr by simp
      have dial: "\<exists>h. net_Dial net ?a = Inr h"
        using get "2.prems"(3) by (cases rule: GetConn_cases) auto
      obtain t2 w2 err where ret: "ReturnConn net t1 c w = (t2, w2, err)" by (cases "ReturnConn net t1 c w") auto
      note g = GetConn_shape [OF get "2.prems"(4)]
      note s = ReturnConn_shape [OF ret]
      have up: "\<exists>h. net_Dial net target = Inr h" if "pooled t2 target \<noteq> []" for target
      proof (cases "target = ?a")
        case False
        have "pooled t2 target = pooled t1 target"
          using ret g False by (auto elim!: ReturnConn_cases)
        moreover have "pooled t1 target = pooled t target"
          using get False by (auto elim!: GetConn_cases)
        ultimately show ?thesis using that "2.prems"(3) by simp
      qed (use dial in simp)
      have "(name, addr) \<in> set peers" using "2.prems"(1,2) dial by auto
      from "2.IH" [OF get [symmetric] refl ret [symmetric] refl this "2.prems"(2) up] s g get ret
      show ?thesis by simp
    qed
  qed
qed simp

lemma establish_loop_reachable:
  assumes "list_all (\<lambda>(name, addr). \<exists>h. net_Dial net (addr @ '':'' @ port_string ports name) = Inr h) peers"
  shows "\<exists>t' w'. establish_loop net ports peers t w = (t', w', None)"
  using assms
proof (induction net ports peers t w rule: establish_loop.induct)
  case (2 net ports name addr peers t w)
  let ?a = "addr @ '':'' @ port_string ports name"
  from "2.prems" have dial: "\<exists>c. dialConn net ?a = Inr c" by (auto simp: dialConn_def)
  have "\<exists>t1 c. GetConn net t ?a = (t1, Inr c)"
  proof (cases "fmlookup (connPool t) ?a")
    case None
    with dial show ?thesis by (auto simp: GetConn_def)
  next
    case (Some cs)
    with dial show ?thesis by (cases cs) (auto simp: GetConn_def)
  qed
  then obtain t1 c where get: "GetConn net t ?a = (t1, Inr c)" by blast
  obtain t2 w2 err where ret: "ReturnConn net t1 c w = (t2, w2, err)" by (cases "ReturnConn net t1 c w") auto
  from "2.IH" [OF get [symmetric] refl ret [symmetric] refl] "2.prems" get ret show ?case by simp
qed simp

lemma fresh_transport [simp]:
  "pool_shape (NewNetworkTransport n types)" "pooled (NewNetworkTransport n types) a = []"
  "\<not> IsShutdown (NewNetworkTransport n types)" "maxPool (NewNetworkTransport n types) = n"
  by (simp_all add: NewNetworkTransport_eq pool_shape_def pooled_def IsShutdown_def)

text \<open>C38: A server whose configuration is accepted, whose ports can be bound and whose peers can
  all be dialled reaches its loops with a connection to every peer in the pool; it proposes
  exactly when the configuration says so.\<close>

theorem server_starts:
  assumes "NewNode c conf = Ret node" and "bind ('':'' @ port_string (clusterPort node) (node_name node)) = None"
    and "rpc_Register env = None" and "rpc_Listen env ('':'' @ json_int (conf_RPCListenPort conf)) = None"
    and "list_all (\<lambda>a. \<exists>h. net_Dial net a = Inr h) (targets (clusterPort node) {} peers)"
    and "0 < conf_MaxPool conf"
  shows "\<exists>t w'. server_main c net bind env peers w (Ret (Inr conf)) =
      Continues (node, t, w', conf_CanProposeBlock conf) \<and>
    list_all (\<lambda>a. pooled t a \<noteq> []) (targets (clusterPort node) {} peers)"
proof -
  let ?t = "NewNetworkTransport (conf_MaxPool conf) reflectedTypesMap"
  have "list_all (\<lambda>(name, addr). \<exists>h. net_Dial net (addr @ '':'' @ port_string (clusterPort node) name) = Inr h) peers"
    using assms(5) by (auto simp: list_all_iff targets_def)
  then obtain t w' where e: "establish_loop net (clusterPort node) peers ?t w = (t, w', None)"
    using establish_loop_reachable by blast
  from establish_loop_pools [OF e] assms(6)
  have "list_all (\<lambda>a. pooled t a \<noteq> []) (targets (clusterPort node) {} peers)"
    by (auto simp: list_all_iff targets_def)
  with e assms(1-4) NewNode_ports [OF assms(1)] show ?thesis
    by (simp add: server_main_def StartP2PListen_def NewTCPTransport_def newTCPTransport_def StartRPCListen_def
        EstablishP2PConns_def CanProposeBlock_def)
qed

theorem server_starts_witness:
  "\<exists>t w. server_main toy (hosts_net {}) (\<lambda>addr. None) \<lparr>rpc_Register = None, rpc_Listen = \<lambda>addr. None\<rparr>
     spread_peers quiet_wires (Ret (Inr spread)) = Continues (node_a, t, w, True)"
proof -
  have conf: "conf_CanProposeBlock spread" "0 < conf_MaxPool spread"
    by (simp_all add: spread_def toy_config_def config_New_def)
  have "list_all (\<lambda>a. \<exists>h. net_Dial (hosts_net {}) a = Inr h) (targets (clusterPort node_a) {} spread_peers)"
    by (simp add: hosts_net_def)
  from server_starts [where w = quiet_wires and env = "\<lparr>rpc_Register = None, rpc_Listen = \<lambda>addr. None\<rparr>",
      OF node_a_sel(1) refl _ _ this conf(2)] conf(1)
  show ?thesis by auto
qed

text \<open>C39: A single peer that cannot be dialled when the server starts ends the server with a
  panic, whatever the order of the peers: the cluster only starts when all of its members are
  up, although it is meant to work with a third of them faulty.\<close>

theorem unreachable_peer_stops_startup:
  assumes "NewNode c conf = Ret node" and "bind ('':'' @ port_string (clusterPort node) (node_name node)) = None"
    and "rpc_Register env = None" and "rpc_Listen env ('':'' @ json_int (conf_RPCListenPort conf)) = None"
    and "(name, addr) \<in> set peers"
    and "net_Dial net (addr @ '':'' @ port_string (clusterPort node) name) = Inl e"
  shows "\<exists>err. server_main c net bind env peers w (Ret (Inr conf)) = Panics (PanicError err)"
proof -
  let ?t = "NewNetworkTransport (conf_MaxPool conf) reflectedTypesMap"
  obtain t w' err where "establish_loop net (clusterPort node) peers ?t w = (t, w', Some err)"
    using establish_loop_unreachable [OF assms(5,6), of ?t w] by auto
  with assms(1-4) NewNode_ports [OF assms(1)] show ?thesis
    by (simp add: server_main_def StartP2PListen_def NewTCPTransport_def newTCPTransport_def StartRPCListen_def
        EstablishP2PConns_def)
qed

theorem unreachable_peer_stops_startup_witness:
  "\<exists>err. server_main toy (hosts_net {''C''}) (\<lambda>addr. None) \<lparr>rpc_Register = None, rpc_Listen = \<lambda>addr. None\<rparr>
     spread_peers quiet_wires (Ret (Inr spread)) = Panics (PanicError err)"
  by (rule unreachable_peer_stops_startup [where node = node_a and name = "''c''" and addr = "''C''"])
    (simp_all add: hosts_net_def spread_peers_def)

end
