(* ===== verification/Voting_Spec.thy ===== *)
theory Voting_Spec
  imports Node_Properties
begin

text \<open>
  What a node promises as a voter, without its tables, references and goroutines: a set of
  known proposals, a set of ballots, the heights it has voted at and the heights it has built
  a certificate for. Its actions learn a proposal, record a ballot, cast the only vote at a
  height, or build the only certificate at a height, for a known proposal with a quorum of
  ballots. The abstract voter is deterministic and has no silent action. The node refines it:
  the actions observed in a run of the node, replayed one after the other, are all allowed
  and lead to the node's tables; what the node does between two observed actions does not
  change these tables.
\<close>

section \<open>The abstract voter\<close>

datatype action =
  Learn u64 string
| Ballot u64 string string
| Vote u64
| Certify u64 string

record voting =
  known :: "(u64 \<times> string) set"
  ballots :: "(u64 \<times> string \<times> string) set"
  cast :: "u64 set"
  certs :: "u64 set"

definition voting_init :: voting where
  "voting_init = \<lparr>known = {}, ballots = {}, cast = {}, certs = {}\<rparr>"

definition voters :: "voting \<Rightarrow> u64 \<Rightarrow> string \<Rightarrow> string set" where
  "voters S h s = {x. (h, s, x) \<in> ballots S}"

fun allowed :: "int \<Rightarrow> voting \<Rightarrow> action \<Rightarrow> bool" where
  "allowed q S (Learn h s) = True"
| "allowed q S (Ballot h s x) = True"
| "allowed q S (Vote h) = (h \<notin> cast S)"
| "allowed q S (Certify h s) = (h \<notin> certs S \<and> (h, s) \<in> known S \<and> q \<le> int (card (voters S h s)))"

fun perform :: "action \<Rightarrow> voting \<Rightarrow> voting" where
  "perform (Learn h s) S = S\<lparr>known := insert (h, s) (known S)\<rparr>"
| "perform (Ballot h s x) S = S\<lparr>ballots := insert (h, s, x) (ballots S)\<rparr>"
| "perform (Vote h) S = S\<lparr>cast := insert h (cast S)\<rparr>"
| "perform (Certify h s) S = S\<lparr>certs := insert h (certs S)\<rparr>"

text \<open>The state after a sequence of actions, if each was allowed when it came.\<close>

fun replay :: "int \<Rightarrow> voting \<Rightarrow> action list \<Rightarrow> voting option" where
  "replay q S [] = Some S"
| "replay q S (a # as) = (if allowed q S a then replay q (perform a S) as else None)"

lemma replay_append:
  "replay q S (as @ bs) = (case replay q S as of None \<Rightarrow> None | Some S' \<Rightarrow> replay q S' bs)"
  by (induction as arbitrary: S) simp_all

lemma replay_snoc:
  assumes "replay q S (as @ [a]) = Some S'"
  obtains T where "replay q S as = Some T" "allowed q T a" "S' = perform a T"
  using assms by (auto simp: replay_append split: option.splits if_splits)

section \<open>What every replayed sequence satisfies\<close>

fun vote_height :: "action \<Rightarrow> u64 option" where
  "vote_height (Vote h) = Some h"
| "vote_height a = None"

fun cert_height :: "action \<Rightarrow> u64 option" where
  "cert_height (Certify h s) = Some h"
| "cert_height a = None"

text \<open>No two votes and no two certificates at a height, and before each certificate its
  proposal was learned and ballots for it from a quorum of distinct senders were recorded.\<close>

definition trace_ok :: "int \<Rightarrow> action list \<Rightarrow> bool" where
  "trace_ok q as \<longleftrightarrow>
     distinct (List.map_filter vote_height as) \<and> distinct (List.map_filter cert_height as) \<and>
     (\<forall>as1 h s as2. as = as1 @ Certify h s # as2 \<longrightarrow>
        Learn h s \<in> set as1 \<and> q \<le> int (card {x. Ballot h s x \<in> set as1}))"

lemma map_filter_snoc:
  "List.map_filter f (as @ [a]) = List.map_filter f as @ (case f a of None \<Rightarrow> [] | Some y \<Rightarrow> [y])"
  by (simp add: List.map_filter_def split: option.splits)

text \<open>The state is what the actions make it.\<close>

lemma replay_state:
  "replay q voting_init as = Some S \<Longrightarrow>
     known S = {(h, s). Learn h s \<in> set as} \<and> ballots S = {(h, s, x). Ballot h s x \<in> set as} \<and>
     cast S = set (List.map_filter vote_height as) \<and> certs S = set (List.map_filter cert_height as)"
proof (induction as arbitrary: S rule: rev_induct)
  case Nil
  then show ?case by (auto simp: voting_init_def List.map_filter_def)
next
  case (snoc a as)
  from snoc.prems obtain T where "replay q voting_init as = Some T" "S = perform a T"
    by (rule replay_snoc)
  with snoc.IH [of T] show ?case by (cases a) (auto simp: map_filter_snoc)
qed

lemma replay_trace_ok: "replay q voting_init as = Some S \<Longrightarrow> trace_ok q as"
proof (induction as arbitrary: S rule: rev_induct)
  case Nil
  show ?case by (simp add: trace_ok_def List.map_filter_def)
next
  case (snoc a as)
  from snoc.prems obtain T where T: "replay q voting_init as = Some T" "allowed q T a"
    by (rule replay_snoc)
  note ok = snoc.IH [OF T(1)] and state = replay_state [OF T(1)]
  have "Learn h s \<in> set as1 \<and> q \<le> int (card {x. Ballot h s x \<in> set as1})"
    if "as @ [a] = as1 @ Certify h s # as2" for as1 h s as2
  proof (cases as2 rule: rev_cases)
    case Nil
    with that have "as1 = as" "a = Certify h s" by simp_all
    with T(2) state show ?thesis by (simp add: voters_def)
  next
    case (snoc bs b)
    with that have "as = as1 @ Certify h s # bs" by simp
    with ok show ?thesis unfolding trace_ok_def by blast
  qed
  moreover have "distinct (List.map_filter vote_height (as @ [a]))"
    "distinct (List.map_filter cert_height (as @ [a]))"
    using ok T(2) state by (cases a; simp add: trace_ok_def map_filter_snoc)+
  ultimately show ?case unfolding trace_ok_def by blast
qed

section \<open>The node as a voter\<close>

definition building :: "task multiset \<Rightarrow> u64 \<Rightarrow> bool" where
  "building M h \<longleftrightarrow> (\<exists>s. BuildBlockWithQC h s \<in># M)"

text \<open>A height whose certificate was begun counts once the goroutine that builds it is through.\<close>

definition voting_of :: "('ps, 'pp) node \<Rightarrow> task multiset \<Rightarrow> voting" where
  "voting_of n M =
     \<lparr>known = {(h, s). pending_block n h s \<noteq> None},
      ballots = {(h, s, x). x |\<in>| fmdom (votes_for n h s)},
      cast = {h. lookup_bool (voted n) h},
      certs = {h. lookup_bool (qcCreated n) h \<and> \<not> building M h}\<rparr>"

fun heights_of :: "message list \<Rightarrow> u64 list" where
  "heights_of [] = []"
| "heights_of (MsgVote v # ms) = BlockHeight (v_PlainVote v) # heights_of ms"
| "heights_of (m # ms) = heights_of ms"

lemma heights_of_append [simp]: "heights_of (xs @ ys) = heights_of xs @ heights_of ys"
  by (induction xs rule: heights_of.induct) simp_all

text \<open>The actions of a step: the votes it sends, and what the goroutine that ran in it did. A
  goroutine that panics does nothing.\<close>

fun goroutine_action :: "('ps, 'pp) crypto \<Rightarrow> event \<Rightarrow> action list" where
  "goroutine_action c (Run (HandleNewBlock b)) = [Learn (Height b) (block_key c b)]"
| "goroutine_action c (Run (HandleVoteMsg v)) =
     [Ballot (BlockHeight (v_PlainVote v)) (hex_EncodeToString (contents (BlockHash (v_PlainVote v))))
        (Sender v)]"
| "goroutine_action c (Run (BuildBlockWithQC h s)) = [Certify h s]"
| "goroutine_action c ev = []"

definition actions_of :: "('ps, 'pp) crypto \<Rightarrow> event \<Rightarrow> message list \<Rightarrow> bool \<Rightarrow> action list" where
  "actions_of c ev out crashed =
     map Vote (heights_of out) @ (if crashed then [] else goroutine_action c ev)"

text \<open>A run with the actions observed in it.\<close>

inductive traced ::
  "('ps, 'pp) crypto \<Rightarrow> ('ps, 'pp) proc \<Rightarrow> event list \<Rightarrow> message list \<Rightarrow> action list \<Rightarrow>
   ('ps, 'pp) proc \<Rightarrow> bool"
  for c :: "('ps, 'pp) crypto" where
  traced_nil: "traced c p [] [] [] p"
| traced_snoc:
  "traced c p evs out as q \<Longrightarrow> proc_step c q ev out' r \<Longrightarrow>
   traced c p (evs @ [ev]) (out @ out') (as @ actions_of c ev out' (p_crashed r)) r"

lemma traced_run: "traced c p evs out as q \<Longrightarrow> proc_run c p evs out q"
  by (induction rule: traced.induct) (auto intro: proc_run.intros)

lemma run_traced: "proc_run c p evs out q \<Longrightarrow> \<exists>as. traced c p evs out as q"
  by (induction rule: proc_run.induct) (blast intro: traced.intros)+

section \<open>The refinement\<close>

lemma voting_of_eq:
  assumes "\<And>h s. (pending_block n' h s \<noteq> None) = (pending_block n h s \<noteq> None)"
    and "\<And>h s. votes_for n' h s = votes_for n h s"
    and "voted n' = voted n" and "qcCreated n' = qcCreated n"
    and "\<And>h. building M' h = building M h"
  shows "voting_of n' M' = voting_of n M"
  using assms by (simp add: voting_of_def)

lemma building_simps [simp]:
  "building (add_mset t M) h = ((\<exists>s. t = BuildBlockWithQC h s) \<or> building M h)"
  "building (M + N) h = (building M h \<or> building N h)"
  "\<not> building {#} h"
  by (auto simp: building_def)

lemma building_work: "building M h \<Longrightarrow> 0 < qc_work h M"
proof -
  assume "building M h"
  then obtain s where "BuildBlockWithQC h s \<in># M" by (auto simp: building_def)
  then obtain rest where "M = add_mset (BuildBlockWithQC h s) rest" by (metis mset_add)
  then show ?thesis by simp
qed

lemma replay_silent: "voting_of n' M' = voting_of n M \<Longrightarrow> replay q (voting_of n M) [] = Some (voting_of n' M')"
  by simp

lemma run_new_block:
  assumes store: "store_inv c n" and run: "run_task c order n (HandleNewBlock b) = Ret (n', ts, out)"
  shows "voting_of n' (rest + mset ts) = perform (Learn (Height b) (block_key c b)) (voting_of n (add_mset (HandleNewBlock b) rest))"
  using run
proof (cases rule: run_task_Ret)
  case (new_block b' n1 r)
  then have b': "b' = b" by simp
  note new = new_block [unfolded b']
  have frame: "voted n' = voted n" "qcCreated n' = qcCreated n"
    using ensure_pending_frame [OF new(3)] new(4) by auto
  have "{(h, s). pending_block n' h s \<noteq> None} =
      insert (Height b, block_key c b) {(h, s). pending_block n h s \<noteq> None}"
    using pending_block_run [OF store run] pending_block_other [OF store new(3,4)]
      new_block_key [OF new(3,4)] by blast
  then show ?thesis using votes_frame [OF run] frame new(5) by (simp add: voting_of_def)
qed simp_all

lemma run_vote_msg:
  assumes run: "run_task c order n (HandleVoteMsg v) = Ret (n', ts, out)"
  shows "voting_of n' (rest + mset ts) =
    perform (Ballot (BlockHeight (v_PlainVote v)) (hex_EncodeToString (contents (BlockHash (v_PlainVote v)))) (Sender v))
      (voting_of n (add_mset (HandleVoteMsg v) rest))"
proof -
  let ?h = "BlockHeight (v_PlainVote v)" and ?s = "hex_EncodeToString (contents (BlockHash (v_PlainVote v)))"
  from run have msg: "(n', ts, out) = handleVoteMsg n v" by simp
  obtain ps where n': "n' = n\<lparr>partialSigs := ps\<rparr>" using handleVoteMsg_frame [OF msg] by blast
  have pend: "pending_block n' h s = pending_block n h s" for h s
    by (simp add: n' pending_block_def pending_lookup_def)
  have built: "building (rest + mset ts) h = building rest h" for h
    using msg by (auto simp: handleVoteMsg_def Let_def)
  have "{(h, s, x). x |\<in>| fmdom (votes_for n' h s)} =
      insert (?h, ?s, Sender v) {(h, s, x). x |\<in>| fmdom (votes_for n h s)}"
    by (auto simp: handleVoteMsg_votes [OF msg] split: if_splits)
  then show ?thesis unfolding voting_of_def pend built by (simp add: n')
qed

lemma run_replays:
  assumes store: "store_inv c n" and qc: "qc_inv n (add_mset t rest)"
    and quorum: "quorum_inv c n (add_mset t rest)" and held: "update_held c n (add_mset t rest)"
    and run: "run_task c order n t = Ret (n', ts, out)"
    and vote: "\<And>b v. t = CastVote b v \<Longrightarrow> BlockHeight (v_PlainVote v) = Height b"
  shows "replay (quorumNum n) (voting_of n (add_mset t rest)) (actions_of c (Run t) out False) =
    Some (voting_of n' (rest + mset ts))"
  using run
proof (cases rule: run_task_Ret)
  case (new_block b n1 r)
  from run_new_block [OF store run [unfolded new_block(1)]] new_block(1,2) show ?thesis
    by (simp add: actions_of_def)
next
  case (vote_msg v)
  from run_vote_msg [OF run [unfolded vote_msg(1)]] vote_msg(1,2) show ?thesis
    by (simp add: actions_of_def)
next
  case (update b r)
  have "pending_block n (Height b) (block_key c b) \<noteq> None"
    using held update(1) by (simp add: update_held_def)
  with pending_block_run [OF store run] pending_block_update [OF store update(4,5)]
  have "(pending_block n' h s \<noteq> None) = (pending_block n h s \<noteq> None)" for h s by blast
  then have "voting_of n' (rest + mset ts) = voting_of n (add_mset t rest)"
    using votes_frame [OF run] update by (intro voting_of_eq) auto
  then show ?thesis by (simp add: actions_of_def update(1,3))
next
  case (cast b v)
  have "voting_of n' (rest + mset ts) = perform (Vote (Height b)) (voting_of n (add_mset t rest))"
    by (auto simp: voting_of_def cast votes_for_def pending_block_def pending_lookup_def)
  moreover have "Height b \<notin> voting.cast (voting_of n (add_mset t rest))" using cast by (simp add: voting_of_def)
  ultimately show ?thesis using vote [OF cast(1)] cast(1,5) by (simp add: actions_of_def)
next
  case (check_yes h s)
  have "qc_work h rest = 0"
    using qc check_yes(1,4) unfolding qc_inv_def by (metis add_is_0 le_zero_eq of_bool_eq(1) qc_work_simps(2))
  then have "\<not> building rest h" using building_work [of rest h] by auto
  with check_yes have "voting_of n' (rest + mset ts) = voting_of n (add_mset t rest)"
    by (auto simp: voting_of_def votes_for_def pending_block_def pending_lookup_def)
  then show ?thesis by (simp add: actions_of_def check_yes(1,2))
next
  case (build h s b sig)
  have "qc_filed n h + qc_work h (add_mset t rest) \<le> of_bool (lookup_bool (qcCreated n) h)"
    using qc by (simp add: qc_inv_def)
  then have once: "lookup_bool (qcCreated n) h" "\<not> building rest h"
    using build(1) building_work [of rest h] by (auto simp: of_bool_def split: if_splits)
  have "has_quorum n h s" using quorum build(1) by (simp add: quorum_inv_def)
  then have "allowed (quorumNum n) (voting_of n (add_mset t rest)) (Certify h s)"
    using build(1) by (simp add: has_quorum_def voting_of_def voters_def map_len_def fcard.rep_eq)
  moreover have "voting_of n' (rest + mset ts) = perform (Certify h s) (voting_of n (add_mset t rest))"
    using once by (auto simp: voting_of_def build)
  ultimately show ?thesis by (simp add: actions_of_def build(1,3))
next
  case (commit bqc)
  then obtain ch where "n' = n\<lparr>chain := ch\<rparr>" using commit_frame by blast
  then have "voting_of n' (rest + mset ts) = voting_of n (add_mset t rest)"
    using commit by (simp add: voting_of_def votes_for_def pending_block_def pending_lookup_def)
  then show ?thesis by (simp add: actions_of_def commit(1,2))
qed (simp_all add: actions_of_def voting_of_def votes_for_def pending_block_def pending_lookup_def)

lemma no_votes_heights: "(\<And>v. MsgVote v \<notin> set ms) \<Longrightarrow> heights_of ms = []"
  by (induction ms rule: heights_of.induct) auto

lemma step_replays:
  assumes inv: "node_inv c p" and ok: "votes_run_inv c evs out p" and step: "proc_step c p ev out' r"
  shows "replay (quorumNum (p_node p)) (voting_of (p_node p) (p_tasks p)) (actions_of c ev out' (p_crashed r)) =
    Some (voting_of (p_node r) (p_tasks r))"
  using step
proof (cases rule: proc_step.cases)
  case (run t rest order n' ts)
  have "BlockHeight (v_PlainVote v) = Height b" if "t = CastVote b v" for b v
  proof -
    have "voting_ok c (p_node p) evs t" using ok run(4) by (simp add: votes_run_inv_def)
    with that show ?thesis by (simp add: vote_of_def plain_vote_eq)
  qed
  then show ?thesis
    using run_replays [of c "p_node p" t rest order n' ts out'] inv run
    by (simp add: node_inv_def wake_inv_def)
next
  case (receive m sig ts)
  from receive(5) have "voting_of (p_node p) (p_tasks p + mset ts) = voting_of (p_node p) (p_tasks p)"
    by (cases rule: HandleMsgsLoop_turn_Ret) (cases m; simp add: voting_of_def)+
  with receive show ?thesis by (simp add: actions_of_def)
next
  case (propose n' l' ts)
  note same = votes_for_propose [OF propose(5)]
  have "ts \<in> {[], [SendHeight 0]}" using propose(5) by (auto elim!: loop_step_frame)
  then have "voting_of n' (p_tasks p + mset ts) = voting_of (p_node p) (p_tasks p)"
    by (intro voting_of_eq) (auto simp: same)
  moreover have "heights_of out' = []"
    using propose(5) by (intro no_votes_heights) (auto elim!: loop_step_frame)
  ultimately show ?thesis using propose(1,2) by (simp add: actions_of_def)
qed (simp_all add: actions_of_def voting_of_def votes_for_def pending_block_def pending_lookup_def)

lemma init_voting: "proc_init c conf p \<Longrightarrow> voting_of (p_node p) (p_tasks p) = voting_init"
proof -
  assume "proc_init c conf p"
  then have "NewNode c conf = Ret (p_node p)" and M: "p_tasks p = {#}" by (simp_all add: proc_init_def)
  note new = NewNode_Ret [OF this(1)]
  show ?thesis
    by (simp add: M voting_of_def voting_init_def new votes_for_empty pending_block_def pending_lookup_def)
qed

lemma traced_replays:
  assumes "traced c p evs out as q" and "proc_init c conf p"
  shows "replay (quorumNum (p_node q)) voting_init as = Some (voting_of (p_node q) (p_tasks q)) \<and>
    List.map_filter vote_height as = heights_of out"
  using assms
proof (induction rule: traced.induct)
  case (traced_nil p)
  then show ?case by (simp add: init_voting List.map_filter_def)
next
  case (traced_snoc p evs out as q ev out' r)
  note run = traced_run [OF traced_snoc(1)]
  have reach: "reachable (proc_init c conf) (proc_next c) q"
    using proc_run_reachable [OF run] reachable.intros(1) [of "proc_init c conf" p] traced_snoc(4) by blast
  have "quorumNum (p_node r) = quorumNum (p_node q)"
    using proc_step_static [OF traced_snoc(2)] by (rule static_D)
  moreover have "List.map_filter vote_height (actions_of c ev out' b) = heights_of out'" for b
  proof -
    have "List.map_filter vote_height (map Vote hs) = hs" for hs
      by (induction hs) (simp_all add: List.map_filter_def)
    moreover have "List.map_filter vote_height (goroutine_action c ev) = []"
      by (cases "(c, ev)" rule: goroutine_action.cases) (simp_all add: List.map_filter_def)
    ultimately show ?thesis by (simp add: actions_of_def List.map_filter_def)
  qed
  ultimately show ?case
    using traced_snoc(3,4) step_replays [OF running.inv_reachable [OF reach]
        votes_run_inv_all [OF run traced_snoc(4)] traced_snoc(2)]
    by (simp add: replay_append List.map_filter_def)
qed

text \<open>C10: The node refines the abstract voter. Whatever it receives and however its goroutines
  are scheduled, the actions observed in its run (a proposal filed, a ballot filed, a vote
  sent, a certificate built) are allowed one after the other in the abstract voter, and
  replaying them gives exactly the node's tables. So the votes it sends are at distinct
  heights, the certificates it builds are at distinct heights, and each certificate comes
  after its proposal and the ballots of a quorum of distinct senders for it.\<close>

theorem node_refines_voter:
  assumes "proc_init c conf p" and "traced c p evs out as q"
  shows "replay (quorumNum (p_node q)) voting_init as = Some (voting_of (p_node q) (p_tasks q)) \<and>
    List.map_filter vote_height as = heights_of out \<and> trace_ok (quorumNum (p_node q)) as"
  using traced_replays [OF assms(2,1)] replay_trace_ok by blast

theorem node_refines_voter_witness:
  "\<exists>p q evs as. proc_init toy one p \<and> traced toy p evs [MsgVote (toy_vote ''a'' blk_a)] as q \<and>
     replay (quorumNum (p_node q)) voting_init as = Some (voting_of (p_node q) (p_tasks q)) \<and>
     List.map_filter vote_height as = [1]"
proof -
  obtain p q where r: "proc_init toy one p"
    "proc_run toy p (map event_of commit_a) [MsgVote (toy_vote ''a'' blk_a)] q"
    using commit_a_run by blast
  obtain as where "traced toy p (map event_of commit_a) [MsgVote (toy_vote ''a'' blk_a)] as q"
    using run_traced [OF r(2)] by blast
  from node_refines_voter [OF r(1) this] this r show ?thesis by auto
qed

end
