(* ===== verification/Cluster.thy ===== *)
theory Cluster
  imports Voting_Spec Scenarios
begin

text \<open>
  Several nodes. Each correct member of the cluster runs the node of the other theories, on
  its own schedule; the other members do as they like. What ties the runs together is that
  nobody can sign for a correct member. Then the votes counted for two blocks at a height
  share a correct voter, who votes once, so at a height at most one block gets a quorum,
  whatever the faulty members send.
\<close>

section \<open>Counted votes were received\<close>

text \<open>A verified vote for a block with hash \<open>s\<close> at height \<open>h\<close> among the events of a run.\<close>

definition ballot ::
  "('ps, 'pp) crypto \<Rightarrow> ('ps, 'pp) node \<Rightarrow> event list \<Rightarrow> VoteWithPartialSig \<Rightarrow> bool" where
  "ballot c n evs v \<longleftrightarrow>
     (\<exists>sig. Receive (MsgVote v) sig \<in> set evs \<and>
        verifySigED25519 c n (Sender v) (goval_of_Vote v) sig = Ret True)"

definition vote_key :: "VoteWithPartialSig \<Rightarrow> string" where
  "vote_key v = hex_EncodeToString (contents (BlockHash (v_PlainVote v)))"

definition ballots_inv :: "('ps, 'pp) crypto \<Rightarrow> event list \<Rightarrow> ('ps, 'pp) proc \<Rightarrow> bool" where
  "ballots_inv c evs p \<longleftrightarrow>
     (\<forall>v. HandleVoteMsg v \<in># p_tasks p \<longrightarrow> ballot c (p_node p) evs v) \<and>
     (\<forall>h s x. x |\<in>| fmdom (votes_for (p_node p) h s) \<longrightarrow>
        (\<exists>v. ballot c (p_node p) evs v \<and> Sender v = x \<and> BlockHeight (v_PlainVote v) = h \<and> vote_key v = s))"

lemma ballot_static: "static n' = static n \<Longrightarrow> ballot c n' evs v = ballot c n evs v"
  unfolding ballot_def by (simp only: verifySig_static [of n' n])

lemma ballot_more: "ballot c n evs v \<Longrightarrow> ballot c n (evs @ evs') v"
  by (auto simp: ballot_def)

lemma ballots_inv_frame:
  assumes inv: "ballots_inv c evs p" and st: "static (p_node q) = static (p_node p)"
    and votes: "\<And>h s. votes_for (p_node q) h s = votes_for (p_node p) h s"
    and tasks: "\<And>v. HandleVoteMsg v \<in># p_tasks q \<Longrightarrow>
      HandleVoteMsg v \<in># p_tasks p \<or> ballot c (p_node p) (evs @ evs') v"
  shows "ballots_inv c (evs @ evs') q"
  unfolding ballots_inv_def votes ballot_static [OF st]
proof (intro conjI allI impI)
  fix v assume "HandleVoteMsg v \<in># p_tasks q"
  from tasks [OF this] inv show "ballot c (p_node p) (evs @ evs') v"
    by (auto simp: ballots_inv_def intro: ballot_more)
next
  fix h s x assume "x |\<in>| fmdom (votes_for (p_node p) h s)"
  with inv obtain v where "ballot c (p_node p) evs v" "Sender v = x"
    "BlockHeight (v_PlainVote v) = h" "vote_key v = s"
    unfolding ballots_inv_def by blast
  with ballot_more show "\<exists>v. ballot c (p_node p) (evs @ evs') v \<and> Sender v = x \<and>
      BlockHeight (v_PlainVote v) = h \<and> vote_key v = s" by blast
qed

lemma ballots_inv_run:
  assumes inv: "ballots_inv c evs p" and t: "p_tasks p = add_mset t rest"
    and run: "run_task c order (p_node p) t = Ret (n', ts, out)"
  shows "ballots_inv c (evs @ [Run t]) (p\<lparr>p_node := n', p_tasks := rest + mset ts\<rparr>)"
proof (cases "\<exists>v. t = HandleVoteMsg v")
  case False
  show ?thesis
    by (rule ballots_inv_frame [OF inv])
      (use static_run [OF run] votes_frame [OF run] False t run_task_no_vote_msg [OF run] in auto)
next
  case True
  then obtain v where v: "t = HandleVoteMsg v" ..
  note st = static_run [OF run]
  have b: "ballot c (p_node p) (evs @ [Run t]) v"
    using inv t v ballot_more unfolding ballots_inv_def by fastforce
  have votes: "votes_for n' h s = (if h = BlockHeight (v_PlainVote v) \<and> s = vote_key v
      then fmupd (Sender v) (PartialSig v) (votes_for (p_node p) h s) else votes_for (p_node p) h s)" for h s
    using handleVoteMsg_votes [of n' ts out "p_node p" v] run v by (simp add: vote_key_def)
  have old: "\<exists>v. ballot c (p_node p) (evs @ [Run t]) v \<and> Sender v = x \<and> BlockHeight (v_PlainVote v) = h \<and> vote_key v = s"
    if "x |\<in>| fmdom (votes_for (p_node p) h s)" for h s x
    using inv that ballot_more [of c "p_node p" evs _ "[Run t]"] unfolding ballots_inv_def by blast
  have tasks: "ballot c (p_node p) (evs @ [Run t]) v'" if "HandleVoteMsg v' \<in># rest + mset ts" for v'
    using inv that t run_task_no_vote_msg [OF run, of v'] ballot_more [of c "p_node p" evs v' "[Run t]"]
    unfolding ballots_inv_def by auto
  show ?thesis
    unfolding ballots_inv_def
    using old b tasks by (auto simp: ballot_static [OF st] votes split: if_splits)
qed

lemma ballots_inv_step:
  assumes inv: "ballots_inv c evs p" and step: "proc_step c p ev out q"
  shows "ballots_inv c (evs @ [ev]) q"
  using step
proof (cases rule: proc_step.cases)
  case (receive m sig ts)
  have "ballot c (p_node p) (evs @ [ev]) v" if "HandleVoteMsg v \<in> set ts" for v
    using receive(5)
  proof (cases rule: HandleMsgsLoop_turn_Ret)
    case 2
    with that receive(1) show ?thesis by (cases m) (auto simp: ballot_def)
  qed (use that in simp)
  then show ?thesis by (intro ballots_inv_frame [OF inv]) (use receive in auto)
next
  case (run t rest order n' ts)
  with ballots_inv_run [OF inv run(4,7)] show ?thesis by simp
next
  case (propose n' l' ts)
  have "set ts \<subseteq> {SendHeight 0}" using propose(5) by (auto elim!: loop_step_frame)
  then show ?thesis
    by (intro ballots_inv_frame [OF inv])
      (use propose static_propose [OF propose(5)] votes_for_propose(1) [OF propose(5)] in auto)
next
  case (accept r)
  then show ?thesis by (intro ballots_inv_frame [OF inv]) (auto simp: static_def votes_for_def)
qed (intro ballots_inv_frame [OF inv]; simp)+

lemma ballots_inv_all:
  assumes run: "proc_run c p evs out q" and init: "proc_init c conf p"
  shows "ballots_inv c evs q"
  using run init
proof (induction rule: proc_run.induct)
  case (run_nil p)
  then have "NewNode c conf = Ret (p_node p)" "p_tasks p = {#}" by (simp_all add: proc_init_def)
  with NewNode_Ret(7) [of c conf "p_node p"] show ?case
    by (simp add: ballots_inv_def votes_for_empty)
qed (blast intro: ballots_inv_step)

section \<open>A cluster\<close>

text \<open>The history of a member: its configuration, its run, what it sent, where it is now.\<close>

record ('ps, 'pp) history =
  hi_conf :: "('ps, 'pp) Config"
  hi_init :: "('ps, 'pp) proc"
  hi_events :: "event list"
  hi_sent :: "message list"
  hi_proc :: "('ps, 'pp) proc"

abbreviation hi_node :: "('ps, 'pp) history \<Rightarrow> ('ps, 'pp) node" where
  "hi_node H \<equiv> p_node (hi_proc H)"

definition follows_code :: "('ps, 'pp) crypto \<Rightarrow> string \<Rightarrow> ('ps, 'pp) history \<Rightarrow> bool" where
  "follows_code c name H \<longleftrightarrow>
     conf_Name (hi_conf H) = name \<and> proc_init c (hi_conf H) (hi_init H) \<and>
     proc_run c (hi_init H) (hi_events H) (hi_sent H) (hi_proc H)"

text \<open>A cluster of the members \<open>M\<close> of which those in \<open>C\<close> are correct: fewer than a third are
  not, and the correct ones run the code with the keys and addresses of these members.\<close>

definition cluster ::
  "('ps, 'pp) crypto \<Rightarrow> string set \<Rightarrow> string set \<Rightarrow> (string \<Rightarrow> ('ps, 'pp) history) \<Rightarrow> bool" where
  "cluster c M C H \<longleftrightarrow>
     finite M \<and> card M < 2 ^ 49 \<and> C \<subseteq> M \<and> 3 * card (M - C) < card M \<and>
     (\<forall>x \<in> C. follows_code c x (H x) \<and> fmdom' (conf_PublicKeyMap (hi_conf (H x))) \<subseteq> M \<and>
        map_len (conf_ClusterAddr (hi_conf (H x))) = card M)"

text \<open>Signatures cannot be forged: a vote in the name of a correct member whose signature
  verifies at a correct member was sent by the former.\<close>

definition unforged :: "('ps, 'pp) crypto \<Rightarrow> string set \<Rightarrow> (string \<Rightarrow> ('ps, 'pp) history) \<Rightarrow> bool" where
  "unforged c C H \<longleftrightarrow>
     (\<forall>x \<in> C. \<forall>y \<in> C. \<forall>v. ballot c (hi_node (H y)) (hi_events (H y)) v \<longrightarrow> Sender v = x \<longrightarrow>
        MsgVote v \<in> set (hi_sent (H x)))"

lemma filter_two:
  assumes "length (filter P xs) \<le> 1" and "x \<in> set xs" "y \<in> set xs" "P x" "P y"
  shows "x = y"
proof -
  have "x \<in> set (filter P xs)" "y \<in> set (filter P xs)" using assms by simp_all
  with assms(1) show ?thesis by (cases "filter P xs") auto
qed

lemma member_static: "follows_code c x H \<Longrightarrow> static (hi_node H) = static (p_node (hi_init H))"
  unfolding follows_code_def by (blast intro: run_static)

lemma NewNode_config:
  "NewNode c conf = Ret n \<Longrightarrow>
   quorumNum n = quorum_of (map_len (conf_ClusterAddr conf)) \<and> publicKeyMap n = conf_PublicKeyMap conf"
  by (auto simp: NewNode_def Let_def split: sum.splits)

lemma member_config:
  assumes "follows_code c x H"
  shows "quorumNum (hi_node H) = quorum_of (map_len (conf_ClusterAddr (hi_conf H)))"
    and "publicKeyMap (hi_node H) = conf_PublicKeyMap (hi_conf H)"
proof -
  have n: "NewNode c (hi_conf H) = Ret (p_node (hi_init H))"
    using assms by (simp add: follows_code_def proc_init_def)
  note st = static_D [OF member_static [OF assms]]
  from n show "quorumNum (hi_node H) = quorum_of (map_len (conf_ClusterAddr (hi_conf H)))"
    and "publicKeyMap (hi_node H) = conf_PublicKeyMap (hi_conf H)"
    using NewNode_config [OF n] by (simp_all add: st)
qed

text \<open>The voters a correct member has counted are members, and the correct ones among them sent
  the vote they are counted with.\<close>

lemma counted_voters:
  assumes cl: "cluster c M C H" and un: "unforged c C H" and y: "y \<in> C"
  shows "fset (fmdom (votes_for (hi_node (H y)) h s)) \<subseteq> M"
    and "x \<in> C \<Longrightarrow> x |\<in>| fmdom (votes_for (hi_node (H y)) h s) \<Longrightarrow>
      \<exists>v. MsgVote v \<in> set (hi_sent (H x)) \<and> BlockHeight (v_PlainVote v) = h \<and> vote_key v = s"
proof -
  have fc: "follows_code c y (H y)" and keys: "fmdom' (conf_PublicKeyMap (hi_conf (H y))) \<subseteq> M"
    using cl y by (simp_all add: cluster_def)
  have inv: "ballots_inv c (hi_events (H y)) (hi_proc (H y))"
    using fc ballots_inv_all by (auto simp: follows_code_def)
  have "x \<in> M" if "x |\<in>| fmdom (votes_for (hi_node (H y)) h s)" for x
  proof -
    from inv that obtain v where "ballot c (hi_node (H y)) (hi_events (H y)) v" "Sender v = x"
      unfolding ballots_inv_def by blast
    then have "x |\<in>| fmdom (publicKeyMap (hi_node (H y)))" by (auto simp: ballot_def dest: verifySig_known)
    with keys show ?thesis by (auto simp: member_config [OF fc] fmdom'_alt_def)
  qed
  then show "fset (fmdom (votes_for (hi_node (H y)) h s)) \<subseteq> M" by blast
  show "\<exists>v. MsgVote v \<in> set (hi_sent (H x)) \<and> BlockHeight (v_PlainVote v) = h \<and> vote_key v = s"
    if "x \<in> C" "x |\<in>| fmdom (votes_for (hi_node (H y)) h s)"
    using inv that un y unfolding ballots_inv_def unforged_def by blast
qed

lemma quorum_unique:
  assumes "cluster c M C H" and "unforged c C H" and "y \<in> C" and "z \<in> C"
    and "has_quorum (hi_node (H y)) h s" and "has_quorum (hi_node (H z)) h s'"
  shows "s = s'"
proof -
  let ?Q = "\<lambda>y s. fset (fmdom (votes_for (hi_node (H y)) h s))"
  have M: "finite M" "card M < 2 ^ 49" and F: "card (M - C) \<le> (card M - 1) div 3"
    using assms(1) by (auto simp: cluster_def)
  have "M \<noteq> {}" using assms(1,3) by (auto simp: cluster_def)
  have Q: "nat (quorum_of (card M)) \<le> card (?Q y s)" if "y \<in> C" "has_quorum (hi_node (H y)) h s" for y s
  proof -
    have "follows_code c y (H y)" "map_len (conf_ClusterAddr (hi_conf (H y))) = card M"
      using assms(1) that(1) by (simp_all add: cluster_def)
    with that(2) show ?thesis
      by (simp add: has_quorum_def member_config map_len_def fcard.rep_eq nat_le_iff)
  qed
  have "\<exists>x. x \<in> ?Q y s \<and> x \<in> ?Q z s' \<and> x \<notin> M - C"
    by (rule thirds.common_correct_member [OF M(1) \<open>M \<noteq> {}\<close> M(2) counted_voters(1) [OF assms(1-3)]
        Q [OF assms(3,5)] counted_voters(1) [OF assms(1,2,4)] Q [OF assms(4,6)] F])
      (use M in simp)
  then obtain x where x: "x \<in> C" "x |\<in>| fmdom (votes_for (hi_node (H y)) h s)" "x |\<in>| fmdom (votes_for (hi_node (H z)) h s')"
    using counted_voters(1) [OF assms(1-3)] by blast
  obtain v v' where v: "MsgVote v \<in> set (hi_sent (H x))" "BlockHeight (v_PlainVote v) = h" "vote_key v = s"
    "MsgVote v' \<in> set (hi_sent (H x))" "BlockHeight (v_PlainVote v') = h" "vote_key v' = s'"
    using counted_voters(2) [OF assms(1-3) x(1,2)] counted_voters(2) [OF assms(1,2,4) x(1,3)] by blast
  have "follows_code c x (H x)" using assms(1) x(1) by (simp add: cluster_def)
  then have "votes_run_inv c (hi_events (H x)) (hi_sent (H x)) (hi_proc (H x))"
    using votes_run_inv_all by (auto simp: follows_code_def)
  then have "length (filter (vote_at h) (hi_sent (H x))) \<le> 1"
    unfolding votes_run_inv_def by (metis (no_types, lifting) of_bool_less_eq_one order_trans)
  from filter_two [OF this v(1,4)] v show ?thesis by simp
qed

text \<open>C3: In a cluster in which fewer than a third of the members are faulty, whose correct
  members run the code with the members' keys and addresses, and where no vote of a correct
  member is forged, no two blocks with different digests get a quorum of recorded votes at one
  height, at the same or at different correct members, whatever the faulty members send and
  in whatever order the messages arrive.\<close>

theorem one_quorum_per_height:
  assumes "cluster c M C H" and "unforged c C H" and "y \<in> C" and "z \<in> C"
    and "has_quorum (hi_node (H y)) h s" and "has_quorum (hi_node (H z)) h s'"
  shows "s = s'"
  by (rule quorum_unique [OF assms])

section \<open>A cluster of four with one silent member\<close>

definition conf_of :: "string \<Rightarrow> (unit, unit) Config" where
  "conf_of x = toy_config (x # filter (\<lambda>y. y \<noteq> x) [''a'', ''b'', ''c'', ''d''])"

text \<open>The member votes for block \<open>a\<close>, counts the votes of the three, and commits the block.\<close>

definition cast_and_commit :: "string \<Rightarrow> choice list" where
  "cast_and_commit x = file_block blk_a @ grow @ [DoRun (BroadcastVote blk_a) [],
     DoRun (CastVote blk_a (toy_vote x blk_a)) []] @
     count_vote ''a'' blk_a @ count_vote ''b'' blk_a @ count_vote ''c'' blk_a @
     certify blk_a [''c'', ''b'', ''a''] @ apply_qc blk_a"

abbreviation commits_a :: "(unit, unit) node \<Rightarrow> bool" where
  "commits_a n \<equiv> has_quorum n 1 ''61'' \<and> \<not> has_quorum n 0 ''43'' \<and>
     fmlookup (chain_blocks (chain n)) 1 = Some \<lparr>bq_Block = blk_a, QC = Some [9]\<rparr>"

lemma cast_and_commit_exec:
  "\<exists>l. exec toy (conf_of ''a'') (cast_and_commit ''a'') = Some (l, [MsgVote (toy_vote ''a'' blk_a)]) \<and>
     commits_a (fst l)"
  "\<exists>l. exec toy (conf_of ''b'') (cast_and_commit ''b'') = Some (l, [MsgVote (toy_vote ''b'' blk_a)]) \<and>
     commits_a (fst l)"
  "\<exists>l. exec toy (conf_of ''c'') (cast_and_commit ''c'') = Some (l, [MsgVote (toy_vote ''c'' blk_a)]) \<and>
     commits_a (fst l)"
  by (simp_all add: exec_simps conf_of_def cast_and_commit_def has_quorum_def
      del: toy_vote_plain plain_vote_height)

lemma cast_and_commit_votes:
  "votes_in (map event_of (cast_and_commit x)) = map (\<lambda>x. toy_vote x blk_a) [''a'', ''b'', ''c'']"
  by (simp add: cast_and_commit_def file_block_def grow_def count_vote_def certify_def apply_qc_def)

lemma votes_in_Receive: "Receive (MsgVote v) sig \<in> set evs \<Longrightarrow> v \<in> set (votes_in evs)"
  by (induction evs rule: votes_in.induct) auto

lemma member_history:
  assumes "exec toy conf chs = Some (l, out)"
  shows "\<exists>H. follows_code toy (conf_Name conf) H \<and> hi_conf H = conf \<and>
    hi_events H = map event_of chs \<and> hi_sent H = out \<and> hi_node H = fst l"
proof -
  obtain p0 where p: "proc_init toy conf p0" "proc_run toy p0 (map event_of chs) out (live_proc l)"
    using exec_run_of [OF assms] by blast
  let ?H = "\<lparr>hi_conf = conf, hi_init = p0, hi_events = map event_of chs, hi_sent = out, hi_proc = live_proc l\<rparr>"
  have "follows_code toy (conf_Name conf) ?H" using p by (simp add: follows_code_def)
  then show ?thesis by (intro exI [of _ ?H]) (simp add: live_proc_def)
qed

text \<open>What the three histories have in common.\<close>

definition voter :: "string \<Rightarrow> (unit, unit) history \<Rightarrow> bool" where
  "voter x H \<longleftrightarrow> follows_code toy x H \<and> hi_conf H = conf_of x \<and>
     hi_events H = map event_of (cast_and_commit x) \<and> hi_sent H = [MsgVote (toy_vote x blk_a)] \<and>
     commits_a (hi_node H)"

lemma voters: "\<exists>H. voter ''a'' H" "\<exists>H. voter ''b'' H" "\<exists>H. voter ''c'' H"
proof -
  have v: "\<exists>H. voter x H"
    if "\<exists>l. exec toy (conf_of x) (cast_and_commit x) = Some (l, [MsgVote (toy_vote x blk_a)]) \<and>
      commits_a (fst l)" for x
  proof -
    from that obtain l where l: "exec toy (conf_of x) (cast_and_commit x) = Some (l, [MsgVote (toy_vote x blk_a)])"
      "commits_a (fst l)" by blast
    have "conf_Name (conf_of x) = x" by (simp add: conf_of_def toy_config_def config_New_def)
    with member_history [OF l(1)] l(2) show ?thesis by (auto simp: voter_def)
  qed
  show "\<exists>H. voter ''a'' H" "\<exists>H. voter ''b'' H" "\<exists>H. voter ''c'' H"
    using v cast_and_commit_exec by blast+
qed

lemma voters_cluster:
  assumes H: "\<And>x. x \<in> {''a'', ''b'', ''c''} \<Longrightarrow> voter x (H x)"
  shows "cluster toy {''a'', ''b'', ''c'', ''d''} {''a'', ''b'', ''c''} H"
    and "unforged toy {''a'', ''b'', ''c''} H"
proof -
  let ?M = "{''a'', ''b'', ''c'', ''d''}" and ?C = "{''a'', ''b'', ''c''}"
  have diff: "?M - ?C = {''d''}" by auto
  have "follows_code toy x (H x) \<and> fmdom' (conf_PublicKeyMap (hi_conf (H x))) \<subseteq> ?M \<and>
      map_len (conf_ClusterAddr (hi_conf (H x))) = 4" if "x \<in> ?C" for x
  proof -
    have "hi_conf (H x) = conf_of x" "follows_code toy x (H x)" using H [OF that] by (simp_all add: voter_def)
    moreover have "fmdom' (conf_PublicKeyMap (conf_of x)) \<subseteq> ?M" "map_len (conf_ClusterAddr (conf_of x)) = 4"
      using that by (auto simp: conf_of_def toy_config_def config_New_def)
    ultimately show ?thesis by simp
  qed
  then show "cluster toy ?M ?C H" unfolding cluster_def diff by simp
  show "unforged toy ?C H"
    unfolding unforged_def
  proof (intro ballI allI impI)
    fix x y v
    assume x: "x \<in> ?C" and y: "y \<in> ?C" and b: "ballot toy (hi_node (H y)) (hi_events (H y)) v" and s: "Sender v = x"
    have "hi_events (H y) = map event_of (cast_and_commit y)" using H [OF y] by (simp add: voter_def)
    with b obtain sig where "Receive (MsgVote v) sig \<in> set (map event_of (cast_and_commit y))"
      unfolding ballot_def by metis
    then have "v \<in> set (votes_in (map event_of (cast_and_commit y)))" by (rule votes_in_Receive)
    with s have "v = toy_vote x blk_a" by (auto simp: cast_and_commit_votes)
    with H [OF x] show "MsgVote v \<in> set (hi_sent (H x))" by (simp add: voter_def)
  qed
qed

theorem one_quorum_per_height_witness:
  "\<exists>H. cluster toy {''a'', ''b'', ''c'', ''d''} {''a'', ''b'', ''c''} H \<and>
     unforged toy {''a'', ''b'', ''c''} H \<and> has_quorum (hi_node (H ''a'')) 1 ''61'' \<and>
     {s. has_quorum (hi_node (H ''b'')) 1 s} = {''61''}"
proof -
  obtain Ha Hb Hc where "voter ''a'' Ha" "voter ''b'' Hb" "voter ''c'' Hc" using voters by blast
  moreover define H where "H = (\<lambda>x. if x = ''a'' then Ha else if x = ''b'' then Hb else Hc)"
  ultimately have v: "voter x (H x)" if "x \<in> {''a'', ''b'', ''c''}" for x using that by auto
  note cl = voters_cluster [of H, OF v]
  have q: "has_quorum (hi_node (H ''a'')) 1 ''61''" "has_quorum (hi_node (H ''b'')) 1 ''61''"
    using v [of "''a''"] v [of "''b''"] by (simp_all add: voter_def)
  have "s = ''61''" if "has_quorum (hi_node (H ''b'')) 1 s" for s
    by (rule one_quorum_per_height [OF cl, of "''b''" "''a''" 1 s]) (use that q in simp_all)
  with q cl show ?thesis by blast
qed

end
