(* ===== verification/Cluster_Agreement.thy ===== *)
theory Cluster_Agreement
  imports Cluster
begin

text \<open>
  When the nodes of a cluster agree on what they commit. A node commits the ancestors of
  every certified block, so two nodes agree at all heights exactly as far as the certified
  blocks lie on one branch, which the code does not enforce. Here it is shown that this is
  the only thing missing: if the certified blocks known to correct members are on one branch,
  and the hash has no collision among the blocks received, all committed chains agree.
\<close>

section \<open>A node has only blocks it received\<close>

definition received :: "event list \<Rightarrow> Block set" where
  "received evs = insert genesis {b. \<exists>sig. Receive (MsgBlock b) sig \<in> set evs}"

lemma received_more: "received evs \<subseteq> received (evs @ evs')"
  by (auto simp: received_def)

lemma blocks_within_mono: "blocks_within K n M \<Longrightarrow> K \<subseteq> L \<Longrightarrow> blocks_within L n M"
  unfolding blocks_within_def by (meson subset_iff)

lemma blocks_within_frame:
  assumes "blocks_within K n M" and "block_store n' = block_store n"
    and "pendingBlocksQC n' = pendingBlocksQC n" and "\<And>t. t \<in># M' \<Longrightarrow> t \<in># M \<or> task_blocks t \<subseteq> K"
  shows "blocks_within K n' M'"
  using assms unfolding blocks_within_def by metis

lemma blocks_within_file:
  assumes "blocks_within K n M" and "b \<in> K" and "pendingBlocksQC n' = pendingBlocksQC n"
    and "block_store n' = (block_store n1)(r := fmupd k b (block_store n1 r))"
    and "\<And>r. block_store n1 r = block_store n r \<or> block_store n1 r = fmempty"
    and "\<And>t. t \<in># M' \<Longrightarrow> t \<in># M \<or> task_blocks t \<subseteq> K"
  shows "blocks_within K n' M'"
proof -
  have "x \<in> K" if "fmlookup (block_store n1 r) s = Some x" for r s x
    using assms(1) assms(5) [of r] that by (auto simp: blocks_within_def)
  then have "x \<in> K" if "fmlookup (block_store n' r) s = Some x" for r s x
    using that assms(2,4) by (auto split: if_splits)
  with assms(1,3,6) show ?thesis unfolding blocks_within_def by metis
qed

lemma ensure_pending_store:
  assumes "ensure_pending n h = (n1, r)"
  shows "block_store n1 r' = block_store n r' \<or> block_store n1 r' = fmempty"
    and "pendingBlocksQC n1 = pendingBlocksQC n"
  using assms by (auto simp: ensure_pending_def split: option.splits)

lemma blocks_within_run:
  assumes within: "blocks_within K n (add_mset t rest)" and run: "run_task c order n t = Ret (n', ts, out)"
  shows "blocks_within K n' (rest + mset ts)"
proof -
  have task: "task_blocks t \<subseteq> K" using within by (simp add: blocks_within_def)
  show ?thesis
    using run
  proof (cases rule: run_task_Ret)
    case (new_block b n1 r)
    show ?thesis
      by (rule blocks_within_file [OF within, of b _ n1 r])
        (use new_block ensure_pending_store [OF new_block(3)] task in auto)
  next
    case (update b r)
    show ?thesis
      by (rule blocks_within_file [OF within, of b _ n r]) (use update task in auto)
  next
    case (build h s b sig)
    then have "b \<in> K" using blocks_within_pending [OF within] by blast
    with build show ?thesis by (intro blocks_within_frame [OF within]) auto
  next
    case (qc_new bqc)
    then have "bq_Block bqc \<in> K" using task by simp
    with within qc_new show ?thesis by (auto simp: blocks_within_def)
  next
    case (vote_msg v)
    then obtain ps h s where "n' = n\<lparr>partialSigs := ps\<rparr>" "ts = [CheckIfQuorumVotes h s]"
      by (auto simp: handleVoteMsg_def Let_def)
    then show ?thesis by (intro blocks_within_frame [OF within]) auto
  next
    case (commit bqc)
    then obtain ch where "n' = n\<lparr>chain := ch\<rparr>" using commit_frame by blast
    with commit show ?thesis by (intro blocks_within_frame [OF within]) auto
  next
    case (extend bqc)
    with within show ?thesis by (auto simp: blocks_within_def split: if_splits)
  qed (use task in \<open>intro blocks_within_frame [OF within]; auto\<close>)+
qed

lemma ancestor_mono:
  assumes "ancestor c K b e" "K \<subseteq> L"
  shows "ancestor c L b e"
proof -
  have "parent_of c K x y \<Longrightarrow> parent_of c L x y" for x y using assms(2) by (auto simp: parent_of_def)
  then have "(parent_of c K ^^ k) x y \<Longrightarrow> (parent_of c L ^^ k) x y" for k x y by (rule relpowp_mono)
  with assms(1) show ?thesis unfolding ancestor_def by blast
qed

lemma justified_mono: "justified c K n e \<Longrightarrow> K \<subseteq> L \<Longrightarrow> justified c L n e"
  unfolding justified_def using ancestor_mono by blast

lemma committed_in_mono: "committed_in c K n \<Longrightarrow> K \<subseteq> L \<Longrightarrow> committed_in c L n"
  unfolding committed_in_def using justified_mono by metis

text \<open>The two invariants over a run, with the growing set of received blocks.\<close>

definition known_inv :: "('ps, 'pp) crypto \<Rightarrow> event list \<Rightarrow> ('ps, 'pp) proc \<Rightarrow> bool" where
  "known_inv c evs p \<longleftrightarrow>
     blocks_within (received evs) (p_node p) (p_tasks p) \<and> committed_in c (received evs) (p_node p)"

lemma known_inv_step:
  assumes inv: "known_inv c evs p" and node: "node_inv c p" and step: "proc_step c p ev out q"
  shows "known_inv c (evs @ [ev]) q"
proof -
  let ?K = "received (evs @ [ev])"
  have within: "blocks_within ?K (p_node p) (p_tasks p)" and committed: "committed_in c ?K (p_node p)"
    using inv received_more blocks_within_mono committed_in_mono unfolding known_inv_def by metis+
  from step show ?thesis
  proof (cases rule: proc_step.cases)
    case (receive m sig ts)
    have "task_blocks t \<subseteq> ?K" if "t \<in> set ts" for t
      using receive(5)
    proof (cases rule: HandleMsgsLoop_turn_Ret)
      case 2
      with that receive(1) show ?thesis by (cases m) (auto simp: received_def)
    qed (use that in simp)
    then have "blocks_within ?K (p_node q) (p_tasks q)"
      by (intro blocks_within_frame [OF within]) (use receive in auto)
    with receive committed show ?thesis by (simp add: known_inv_def)
  next
    case (run t rest order n' ts)
    have "quorum_inv c (p_node p) (add_mset t rest)" "store_inv c (p_node p)"
      using node run by (simp_all add: node_inv_def)
    with committed_inv_run [OF committed _ _ _ run(7)] blocks_within_run [OF _ run(7)] within run
    show ?thesis by (simp add: known_inv_def)
  next
    case (propose n' l' ts)
    have ts: "set ts \<subseteq> {SendHeight 0}" using propose(5) by (auto elim!: loop_step_frame)
    have "blocks_within ?K n' (p_tasks p + mset ts)"
      by (rule blocks_within_frame [OF within]) (use votes_for_propose(4,6) [OF propose(5)] ts in auto)
    with propose committed_inv_propose [OF committed propose(5)] show ?thesis by (simp add: known_inv_def)
  next
    case (accept r)
    have "blocks_within ?K (p_node q) (p_tasks q)"
      by (rule blocks_within_frame [OF within]) (use accept in auto)
    with accept committed show ?thesis by (simp add: known_inv_def)
  qed (use within committed in \<open>simp_all add: known_inv_def\<close>)
qed

lemma known_inv_all:
  assumes run: "proc_run c p evs out q" and init: "proc_init c conf p"
  shows "known_inv c evs q"
  using run init
proof (induction rule: proc_run.induct)
  case (run_nil p)
  then have new: "NewNode c conf = Ret (p_node p)" and "p_tasks p = {#}" by (simp_all add: proc_init_def)
  with NewNode_Ret(5,9) [OF new] committed_inv_NewNode [OF new] show ?case
    by (auto simp: known_inv_def blocks_within_def received_def split: if_splits)
next
  case (run_snoc p evs out q ev out' r)
  have "reachable (proc_init c conf) (proc_next c) q"
    using proc_run_reachable [OF run_snoc(1)] run_snoc.prems reachable.intros(1) by metis
  with run_snoc known_inv_step running.inv_reachable show ?case by blast
qed

section \<open>Agreement\<close>

definition known_blocks :: "string set \<Rightarrow> (string \<Rightarrow> ('ps, 'pp) history) \<Rightarrow> Block set" where
  "known_blocks C H = (\<Union>x \<in> C. received (hi_events (H x)))"

text \<open>A block a member has received and counted a quorum of votes for.\<close>

definition voted_in :: "('ps, 'pp) crypto \<Rightarrow> ('ps, 'pp) history \<Rightarrow> Block \<Rightarrow> bool" where
  "voted_in c H b \<longleftrightarrow> b \<in> received (hi_events H) \<and> has_quorum (hi_node H) (Height b) (block_key c b)"

text \<open>The blocks that have a quorum at correct members lie on one branch above the genesis block:
  the lower of two is an ancestor of the higher.\<close>

definition one_branch :: "('ps, 'pp) crypto \<Rightarrow> string set \<Rightarrow> (string \<Rightarrow> ('ps, 'pp) history) \<Rightarrow> bool" where
  "one_branch c C H \<longleftrightarrow>
     (\<forall>y \<in> C. \<forall>b. voted_in c (H y) b \<longrightarrow> 0 < Height b) \<and>
     (\<forall>y \<in> C. \<forall>z \<in> C. \<forall>b b'. voted_in c (H y) b \<longrightarrow> voted_in c (H z) b' \<longrightarrow>
        Height b < Height b' \<longrightarrow> ancestor c (known_blocks C H) b' b)"

lemma parent_unique:
  "inj_on (block_key c) K \<Longrightarrow> parent_of c K b p \<Longrightarrow> parent_of c K b q \<Longrightarrow> p = q"
  unfolding parent_of_def by (metis inj_onD)

lemma path_unique:
  assumes "inj_on (block_key c) K"
  shows "(parent_of c K ^^ k) b p \<Longrightarrow> (parent_of c K ^^ k) b q \<Longrightarrow> p = q"
proof (induction k arbitrary: p q)
  case (Suc k)
  then show ?case using parent_unique [OF assms] by (metis relpowp_Suc_E)
qed simp

lemma ancestor_trans:
  assumes "ancestor c K b' b" "ancestor c K b e" and "Height e \<le> Height b" "Height b \<le> Height b'"
  shows "ancestor c K b' e"
proof -
  have "unat (Height b' - Height e) = unat (Height b' - Height b) + unat (Height b - Height e)"
    using assms(3,4) by (simp add: unat_sub word_le_nat_alt)
  with assms(1,2) show ?thesis by (auto simp: ancestor_def relpowp_add)
qed

text \<open>What a correct member has committed descends from a block it has a quorum for.\<close>

lemma committed_descends:
  assumes cl: "cluster c M C H" and br: "one_branch c C H" and y: "y \<in> C" and h: "0 < h"
    and e: "fmlookup (chain_blocks (chain (hi_node (H y)))) h = Some e"
  obtains b where "voted_in c (H y) b" "ancestor c (known_blocks C H) b (bq_Block e)"
    "Height (bq_Block e) = h" "h \<le> Height b"
proof -
  have run: "proc_init c (hi_conf (H y)) (hi_init (H y))"
    "proc_run c (hi_init (H y)) (hi_events (H y)) (hi_sent (H y)) (hi_proc (H y))"
    using cl y by (simp_all add: cluster_def follows_code_def)
  have "reachable (proc_init c (hi_conf (H y))) (proc_next c) (hi_proc (H y))"
    using proc_run_reachable [OF run(2)] run(1) reachable.intros(1) by metis
  with e have height: "Height (bq_Block e) = h" using reachable_inv(2) unfolding chain_inv_def by metis
  have "committed_in c (received (hi_events (H y))) (hi_node (H y))"
    using known_inv_all [OF run(2,1)] by (simp add: known_inv_def)
  with e h have "justified c (received (hi_events (H y))) (hi_node (H y)) e" unfolding committed_in_def by blast
  then obtain bqc where b: "certified c (hi_node (H y)) bqc" "bq_Block bqc \<in> received (hi_events (H y))"
    "ancestor c (known_blocks C H) (bq_Block bqc) (bq_Block e)"
    "Height (bq_Block e) \<le> Height (bq_Block bqc) \<or> Height (bq_Block bqc) = 0"
    using ancestor_mono [of c "received (hi_events (H y))" _ _ "known_blocks C H"] y
    unfolding justified_def known_blocks_def by blast
  then have v: "voted_in c (H y) (bq_Block bqc)" by (simp add: voted_in_def certified_def)
  with br y have "0 < Height (bq_Block bqc)" by (simp add: one_branch_def)
  with b height v show thesis by (intro that [of "bq_Block bqc"]) auto
qed

text \<open>Two blocks at one height that descend from blocks with a quorum are the same.\<close>

lemma agree:
  assumes "cluster c M C H" and "unforged c C H" and y: "y \<in> C" and z: "z \<in> C"
    and inj: "inj_on (block_key c) (known_blocks C H)" and br: "one_branch c C H"
    and b: "voted_in c (H y) b" and b': "voted_in c (H z) b'"
    and e: "ancestor c (known_blocks C H) b e" and e': "ancestor c (known_blocks C H) b' e'"
    and le: "Height b \<le> Height b'" and h: "Height e = Height e'" "Height e \<le> Height b"
  shows "e = e'"
proof -
  let ?K = "known_blocks C H"
  have "ancestor c ?K b' b"
  proof (cases "Height b = Height b'")
    case True
    then have "block_key c b = block_key c b'"
      using quorum_unique [OF assms(1,2) y z] b b' unfolding voted_in_def by metis
    moreover have "b \<in> ?K" "b' \<in> ?K" using b b' y z by (auto simp: voted_in_def known_blocks_def)
    ultimately have "b = b'" using inj by (simp add: inj_on_eq_iff)
    then show ?thesis by simp
  next
    case False
    with le br y z b b' show ?thesis by (auto simp: one_branch_def)
  qed
  from ancestor_trans [OF this e h(2) le] e' h(1) show ?thesis
    using path_unique [OF inj] by (auto simp: ancestor_def)
qed

text \<open>C4: Where the certified blocks lie on one branch, correct members agree on everything they
  commit: if fewer than a third of the members are faulty, no signature is forged, the hash
  has no collision among the blocks that correct members received, and of two blocks with a
  quorum the lower is an ancestor of the higher, then any two correct members have the same
  block at every height that both have committed. The code does not see to the last condition:
  it votes for proposals whose parent is not certified.\<close>

theorem committed_blocks_agree:
  assumes "cluster c M C H" and "unforged c C H" and "y \<in> C" and "z \<in> C"
    and "inj_on (block_key c) (known_blocks C H)" and "one_branch c C H" and "0 < h"
    and "fmlookup (chain_blocks (chain (hi_node (H y)))) h = Some e"
    and "fmlookup (chain_blocks (chain (hi_node (H z)))) h = Some e'"
  shows "bq_Block e = bq_Block e'"
proof -
  obtain b where b: "voted_in c (H y) b" "ancestor c (known_blocks C H) b (bq_Block e)"
    "Height (bq_Block e) = h" "h \<le> Height b"
    using committed_descends [OF assms(1,6,3,7,8)] .
  obtain b' where b': "voted_in c (H z) b'" "ancestor c (known_blocks C H) b' (bq_Block e')"
    "Height (bq_Block e') = h" "h \<le> Height b'"
    using committed_descends [OF assms(1,6,4,7,9)] .
  show ?thesis
    using agree [OF assms(1,2,3,4,5,6) b(1) b'(1) b(2) b'(2)] agree [OF assms(1,2,4,3,5,6) b'(1) b(1) b'(2) b(2)]
      b b' by (metis linear)
qed

lemma voters_received:
  assumes "voter x H"
  shows "received (hi_events H) = {genesis, blk_a}"
proof -
  have "hi_events H = map event_of (cast_and_commit x)" using assms by (simp add: voter_def)
  then show ?thesis
    by (auto simp: received_def cast_and_commit_def file_block_def grow_def count_vote_def certify_def apply_qc_def)
qed

lemma voters_branch:
  assumes H: "\<And>x. x \<in> {''a'', ''b'', ''c''} \<Longrightarrow> voter x (H x)"
  shows "known_blocks {''a'', ''b'', ''c''} H = {genesis, blk_a}" and "one_branch toy {''a'', ''b'', ''c''} H"
proof -
  let ?C = "{''a'', ''b'', ''c''}"
  have K: "received (hi_events (H x)) = {genesis, blk_a}" if "x \<in> ?C" for x
    using voters_received [OF H [OF that]] .
  then show "known_blocks ?C H = {genesis, blk_a}" by (auto simp: known_blocks_def)
  have only: "b = blk_a" if x: "x \<in> ?C" and b: "voted_in toy (H x) b" for x b
  proof -
    have "b \<in> {genesis, blk_a}" and q: "has_quorum (hi_node (H x)) (Height b) (block_key toy b)"
      using b K [OF x] unfolding voted_in_def by simp_all
    moreover have "\<not> has_quorum (hi_node (H x)) (Height genesis) (block_key toy genesis)"
      using H [OF x] unfolding voter_def by simp
    ultimately show ?thesis by blast
  qed
  have "Height blk_a = 1" by simp
  show "one_branch toy ?C H"
    unfolding one_branch_def
  proof (intro conjI ballI allI impI)
    fix y b assume "y \<in> ?C" "voted_in toy (H y) b"
    then show "0 < Height b" using only [of y b] by simp
  next
    fix y z b b' assume "y \<in> ?C" "z \<in> ?C" "voted_in toy (H y) b" "voted_in toy (H z) b'" "Height b < Height b'"
    then show "ancestor toy (known_blocks ?C H) b' b" using only [of y b] only [of z b'] by simp
  qed
qed

theorem committed_blocks_agree_witness:
  "\<exists>H e e'. cluster toy {''a'', ''b'', ''c'', ''d''} {''a'', ''b'', ''c''} H \<and>
     one_branch toy {''a'', ''b'', ''c''} H \<and>
     fmlookup (chain_blocks (chain (hi_node (H ''a'')))) 1 = Some e \<and>
     fmlookup (chain_blocks (chain (hi_node (H ''b'')))) 1 = Some e' \<and> bq_Block e = bq_Block e'"
proof -
  obtain Ha Hb Hc where "voter ''a'' Ha" "voter ''b'' Hb" "voter ''c'' Hc" using voters by blast
  moreover define H where "H = (\<lambda>x. if x = ''a'' then Ha else if x = ''b'' then Hb else Hc)"
  ultimately have v: "voter x (H x)" if "x \<in> {''a'', ''b'', ''c''}" for x using that by auto
  note cl = voters_cluster [of H, OF v]
  have br: "known_blocks {''a'', ''b'', ''c''} H = {genesis, blk_a}" "one_branch toy {''a'', ''b'', ''c''} H"
    using voters_branch [of H] v by blast+
  have inj: "inj_on (block_key toy) (known_blocks {''a'', ''b'', ''c''} H)" unfolding br(1) by auto
  obtain e e' where e: "fmlookup (chain_blocks (chain (hi_node (H ''a'')))) 1 = Some e"
    "fmlookup (chain_blocks (chain (hi_node (H ''b'')))) 1 = Some e'"
    using v [of "''a''"] v [of "''b''"] by (simp add: voter_def)
  have "bq_Block e = bq_Block e'"
    by (rule committed_blocks_agree [OF cl _ _ inj br(2) _ e]) simp_all
  with cl e br(2) show ?thesis by blast
qed

end
