(* ===== verification/Node_Termination.thy ===== *)
theory Node_Termination
  imports Node_Properties
begin

text \<open>
  The goroutines of a node come to rest. A goroutine starts others, and two of them start
  themselves again, so this needs a measure: the proposals not filed yet, then the pending
  heights above the candidate chain, then a weight of what is left, where a certified block
  that waits weighs as much as the goroutine that will commit it.
\<close>

section \<open>The measure\<close>

fun filing :: "task \<Rightarrow> nat" where
  "filing (HandleNewBlockMsg b) = 2"
| "filing (HandleNewBlock b) = 1"
| "filing t = 0"

fun weight :: "task \<Rightarrow> nat" where
  "weight (HandleNewBlockMsg b) = 0"
| "weight (HandleNewBlock b) = 0"
| "weight (BroadcastVote b) = 2"
| "weight (CastVote b v) = 1"
| "weight (TryUpdateCandidateChain b) = 2"
| "weight TryExtendCandidateChain = 1"
| "weight (SendHeight h) = 1"
| "weight (HandleVoteMsg v) = 8"
| "weight (CheckIfQuorumVotes h s) = 7"
| "weight (BuildBlockWithQC h s) = 6"
| "weight (HandleNewBlockQC bqc) = 5"
| "weight (CommitAncestor bqc) = 2"
| "weight TryExtendChain = 1"
| "weight (HandleSortitionMsg m) = 1"

definition above :: "('ps, 'pp) node \<Rightarrow> nat" where
  "above n = card {h. fmlookup (pendingBlocks n) h \<noteq> None \<and> cc_height (candidateChain n) < h}"

definition load :: "('ps, 'pp) node \<Rightarrow> task multiset \<Rightarrow> nat \<times> nat \<times> nat" where
  "load n M = (sum_mset (image_mset filing M), above n,
     sum_mset (image_mset weight M) + map_len (pendingBlocksQC n))"

definition less_load :: "(nat \<times> nat \<times> nat) rel" where
  "less_load = less_than <*lex*> less_than <*lex*> less_than"

lemma wf_less_load: "wf less_load"
  by (simp add: less_load_def wf_lex_prod)

lemma above_cong:
  "pendingBlocks n' = pendingBlocks n \<Longrightarrow> candidateChain n' = candidateChain n \<Longrightarrow> above n' = above n"
  by (simp add: above_def)

lemma above_extend:
  assumes "fmlookup (pendingBlocks n) (cc_height (candidateChain n) + 1) = Some r"
    and "cc_height (candidateChain n) \<noteq> - 1"
    and n': "n' = n\<lparr>candidateChain := \<lparr>cc_blocks = bs, cc_height = cc_height (candidateChain n) + 1\<rparr>\<rparr>"
  shows "above n' < above n"
proof -
  let ?h = "cc_height (candidateChain n)"
  let ?A = "\<lambda>k. {h. fmlookup (pendingBlocks n) h \<noteq> None \<and> k < h}"
  have "finite (?A ?h)"
    by (rule finite_subset [of _ "fset (fmdom (pendingBlocks n))"]) (auto intro: fmdomI)
  moreover have "?h < ?h + 1" using assms(2) u64_le_Suc [of ?h ?h] by (metis order_le_less u64_less_Suc)
  then have "?A (?h + 1) \<subset> ?A ?h" using assms(1) by auto
  ultimately have "card (?A (?h + 1)) < card (?A ?h)" by (rule psubset_card_mono)
  then show ?thesis by (simp add: above_def n')
qed

lemma map_len_fmdrop: "fmlookup m k \<noteq> None \<Longrightarrow> Suc (map_len (fmdrop k m)) = map_len m"
  by (auto simp: map_len_card fmdom'_drop intro!: card_Suc_Diff1 fmdom'I)

lemma map_len_insert: "map_len (fmupd k v m) \<le> Suc (map_len m)"
  by (simp add: map_len_card card_insert_if del: map_len_fmupd)

lemma run_task_load:
  assumes run: "run_task c order n t = Ret (n', ts, out)" and top: "cc_height (candidateChain n) \<noteq> - 1"
  shows "(load n' (rest + mset ts), load n (add_mset t rest)) \<in> less_load"
  using run
proof (cases rule: run_task_Ret)
  case (new_block b n1 r)
  then show ?thesis by (simp add: load_def less_load_def)
next
  case (extend_cand r)
  have "above n' < above n" by (rule above_extend [OF extend_cand(3) top extend_cand(4)])
  then show ?thesis by (simp add: extend_cand load_def less_load_def)
next
  case (qc_new bqc)
  have "above n' = above n" by (rule above_cong) (simp_all add: qc_new)
  then show ?thesis
    using map_len_insert [of "Height (bq_Block bqc)" bqc "pendingBlocksQC n"]
    by (simp add: qc_new load_def less_load_def)
next
  case (extend bqc)
  have "above n' = above n" by (rule above_cong) (simp_all add: extend)
  moreover have "Suc (map_len (pendingBlocksQC n')) = map_len (pendingBlocksQC n)"
    using map_len_fmdrop [of "pendingBlocksQC n" "chain_height (chain n) + 1"] extend(4) by (simp add: extend(5))
  ultimately show ?thesis by (simp add: extend(1,3) load_def less_load_def)
next
  case (vote_msg v)
  obtain ps where n': "n' = n\<lparr>partialSigs := ps\<rparr>" using handleVoteMsg_frame [OF vote_msg(3)] by blast
  have "ts = [CheckIfQuorumVotes (BlockHeight (v_PlainVote v)) (hex_EncodeToString (contents (BlockHash (v_PlainVote v))))]"
    using vote_msg(3) by (simp add: handleVoteMsg_def Let_def)
  with vote_msg n' show ?thesis by (simp add: load_def less_load_def above_def)
next
  case (commit bqc)
  then obtain ch where "n' = n\<lparr>chain := ch\<rparr>" using commit_frame by blast
  with commit show ?thesis by (simp add: load_def less_load_def above_def)
qed (simp_all add: load_def less_load_def above_def)

section \<open>Rest\<close>

text \<open>A step of the node's own goroutines, with no message, turn or request in between.\<close>

definition own_step :: "('ps, 'pp) crypto \<Rightarrow> ('ps, 'pp) proc \<Rightarrow> ('ps, 'pp) proc \<Rightarrow> bool" where
  "own_step c p q \<longleftrightarrow> (\<exists>t out. proc_step c p (Run t) out q)"

lemma own_step_load:
  assumes "own_step c p q" and "cc_height (candidateChain (p_node p)) \<noteq> - 1"
  shows "p_crashed q \<or> (load (p_node q) (p_tasks q), load (p_node p) (p_tasks p)) \<in> less_load"
proof -
  from assms(1) obtain t out where "proc_step c p (Run t) out q" by (auto simp: own_step_def)
  then show ?thesis
  proof (cases rule: proc_step.cases)
    case (run rest order n' ts)
    with run_task_load [OF run(6) assms(2), of rest] show ?thesis by simp
  qed simp
qed

lemma crashed_no_step: "p_crashed p \<Longrightarrow> \<not> own_step c p q"
  by (auto simp: own_step_def elim: proc_step.cases)

text \<open>C11: The goroutines of a node come to rest: left to itself, with no new message, proposing
  turn or request, no node goes on for ever, however its goroutines are scheduled; after
  finitely many steps none can run any more. (The candidate chain must not have reached the
  last height of the 64-bit range, where its next height would wrap around.)\<close>

theorem goroutines_come_to_rest:
  assumes "\<And>i. cc_height (candidateChain (p_node (f i))) \<noteq> - 1"
  shows "\<exists>i. \<not> own_step c (f i) (f (Suc i))"
proof (rule ccontr)
  assume "\<not> ?thesis"
  then have step: "own_step c (f i) (f (Suc i))" for i by blast
  then have "\<not> p_crashed (f (Suc i))" for i using crashed_no_step by blast
  with own_step_load [OF step assms]
  have down: "(load (p_node (f (Suc i))) (p_tasks (f (Suc i))), load (p_node (f i)) (p_tasks (f i))) \<in> less_load" for i
    by blast
  define g where "g i = load (p_node (f i)) (p_tasks (f i))" for i
  have "\<forall>i. (g (Suc i), g i) \<in> less_load" using down by (simp add: g_def)
  with wf_less_load show False unfolding wf_iff_no_infinite_down_chain by blast
qed

theorem goroutines_come_to_rest_witness:
  "\<exists>p i. reachable (proc_init toy one) (proc_next toy) p \<and> p_tasks p \<noteq> {#} \<and>
     cc_height (candidateChain (p_node p)) = 1 \<and> \<not> own_step toy ((\<lambda>i :: nat. p) i) p"
proof -
  obtain l where l: "exec toy one (file_block blk_a @ grow) = Some (l, [])"
    "cc_height (candidateChain (fst l)) = 1" "snd l \<noteq> []"
    by (simp add: exec_simps)
  have "cc_height (candidateChain (p_node (live_proc l))) \<noteq> - 1" using l(2) by (simp add: live_proc_def)
  from goroutines_come_to_rest [of "\<lambda>i. live_proc l", OF this] exec_reachable [OF l(1)] l(2,3)
  show ?thesis by (intro exI [of _ "live_proc l"]) (auto simp: live_proc_def)
qed

end
