(* ===== verification/Data_Properties.thy ===== *)
theory Data_Properties
  imports Node_Properties
begin

text \<open>
  Properties of the data the node works on: the numbers given to client requests, the
  comparison of blocks, the ratio and the seeds of sortition, the choice of its rounds, and
  the filing of blocks.
\<close>

section \<open>Requests\<close>

text \<open>C28: Serial numbers are handed out once: whatever the interleaving of concurrent
  \<open>NewRequest\<close> calls, their two critical sections and the proposer's draining of the pool,
  the numbers in the pool, with calls still under way, and in proposed blocks together are
  exactly the numbers 0, 1, ... given out so far, each once, up to the wrap-around of the
  64-bit counter; no request is lost or doubled.\<close>

theorem requests_numbered_once:
  assumes "reachable rpc_init rpc_step s" and "begun s \<le> 2 ^ 64"
  shows "mset (map SN (pool s)) + image_mset fst (calls s) + mset (map SN (handed s)) =
      mset_set (word_of_nat ` {0..<begun s})"
  by (rule rpc_numbers_distinct [OF assms])

lemma two_calls:
  "\<exists>s. reachable rpc_init rpc_step s \<and> begun s = 2 \<and> map SN (handed s) = [1] \<and> size (calls s) = 1"
proof -
  define r where "r = \<lparr>Cmd = Some []\<rparr>"
  define s0 where "s0 = \<lparr>handler = \<lparr>nodeName = ''a'', nextSN = 0\<rparr>, pool = [], calls = {#}, handed = [], begun = 0\<rparr>"
  define s2 where "s2 = s0\<lparr>handler := \<lparr>nodeName = ''a'', nextSN = 2\<rparr>, calls := {#(0, r), (1, r)#}, begun := 2\<rparr>"
  define q where "q = \<lparr>rw_Request = r, ServerName = ''a'', SN = 1\<rparr>"
  define s3 where "s3 = s2\<lparr>pool := [q], calls := {#(0, r)#}\<rparr>"
  define s4 where "s4 = s3\<lparr>pool := [], handed := [q]\<rparr>"
  have "reachable rpc_init rpc_step s0" by (rule reach_init) (simp add: rpc_init_def s0_def)
  moreover have "rpc_step s0 (s0\<lparr>handler := \<lparr>nodeName = ''a'', nextSN = 1\<rparr>, calls := {#(0, r)#}, begun := 1\<rparr>)"
    using rpc_take [of s0 _ _ r] by (simp add: s0_def take_SN_def)
  ultimately have 1: "reachable rpc_init rpc_step
      (s0\<lparr>handler := \<lparr>nodeName = ''a'', nextSN = 1\<rparr>, calls := {#(0, r)#}, begun := 1\<rparr>)"
    by (rule reach_step)
  have "rpc_step (s0\<lparr>handler := \<lparr>nodeName = ''a'', nextSN = 1\<rparr>, calls := {#(0, r)#}, begun := 1\<rparr>) s2"
    using rpc_take [of "s0\<lparr>handler := \<lparr>nodeName = ''a'', nextSN = 1\<rparr>, calls := {#(0, r)#}, begun := 1\<rparr>" _ _ r]
    by (simp add: s2_def s0_def take_SN_def numeral_2_eq_2 add_mset_commute)
  with 1 have 2: "reachable rpc_init rpc_step s2" by (rule reach_step)
  have "rpc_step s2 s3"
    using rpc_append [of 1 r s2] by (simp add: s3_def s2_def s0_def q_def append_request_def)
  with 2 have 3: "reachable rpc_init rpc_step s3" by (rule reach_step)
  have "rpc_step s3 s4"
    using rpc_drain [of s3 "[q]" "[]"] by (simp add: s4_def s3_def s2_def s0_def drain_pool_def)
  with 3 have "reachable rpc_init rpc_step s4" by (rule reach_step)
  moreover have "begun s4 = 2" "map SN (handed s4) = [1]" "calls s4 = {#(0, r)#}"
    by (simp_all add: s4_def s3_def s2_def s0_def q_def)
  ultimately show ?thesis by (intro exI [of _ s4]) simp
qed

theorem requests_numbered_once_witness:
  "\<exists>s. reachable rpc_init rpc_step s \<and> begun s = 2 \<and> map SN (handed s) = [1] \<and>
     mset (map SN (pool s)) + image_mset fst (calls s) + mset (map SN (handed s)) =
      mset_set (word_of_nat ` {0..<2})"
proof -
  obtain s where s: "reachable rpc_init rpc_step s" "begun s = 2" "map SN (handed s) = [1]"
    using two_calls by metis
  have "begun s \<le> 2 ^ 64" by (simp add: s(2))
  note all = requests_numbered_once [OF s(1) this, unfolded s(2)]
  show ?thesis by (intro exI [of _ s] conjI s all)
qed

section \<open>Comparison of blocks\<close>

lemma Cmds_loop_iff:
  "length cs = length cs2 \<Longrightarrow> Cmds_loop i cs cs2 = Inr True \<longleftrightarrow> list_all2 (\<lambda>x y. x \<noteq> y) cs cs2"
  by (induction cs cs2 arbitrary: i rule: list_induct2) (simp_all add: RequestWrappedByServer_Equal_iff)

lemma bytes_Equal_iff: "bytes_Equal s t \<longleftrightarrow> contents s = contents t"
  by (simp add: bytes_Equal_def)

text \<open>C32: \<open>Block.Equal\<close> accepts two blocks exactly when their proposers, heights and previous
  hashes agree and their commands differ at every index: the test of the loop over the
  commands is inverted. So a block is equal to itself only when it has no commands.\<close>

theorem block_equal_test_is_inverted:
  "(Block_Equal b b2 = Inr True \<longleftrightarrow>
     Proposer b = Proposer b2 \<and> Height b = Height b2 \<and>
     contents (PreviousHash b) = contents (PreviousHash b2) \<and>
     (Cmds b = None \<longleftrightarrow> Cmds b2 = None) \<and>
     list_all2 (\<lambda>x y. x \<noteq> y) (contents (Cmds b)) (contents (Cmds b2))) \<and>
   (Block_Equal b b = Inr True \<longleftrightarrow> contents (Cmds b) = [])"
proof -
  have iff: "Block_Equal b b2 = Inr True \<longleftrightarrow>
     Proposer b = Proposer b2 \<and> Height b = Height b2 \<and>
     contents (PreviousHash b) = contents (PreviousHash b2) \<and>
     (Cmds b = None \<longleftrightarrow> Cmds b2 = None) \<and>
     list_all2 (\<lambda>x y. x \<noteq> y) (contents (Cmds b)) (contents (Cmds b2))" for b b2
    by (auto simp: Block_Equal_def bytes_Equal_iff Cmds_loop_iff list_all2_lengthD split: option.splits)
  have "list_all2 (\<lambda>x y. x \<noteq> y) cs cs \<longleftrightarrow> cs = []" for cs :: "RequestWrappedByServer list"
    by (cases cs) simp_all
  then show ?thesis by (simp only: iff simp_thms)
qed

section \<open>Sortition\<close>

text \<open>C31: The seeds of different heights and rounds differ as long as rounds stay below
  \<open>2 ^ 20\<close> and heights below \<open>2 ^ 44\<close>; round \<open>2 ^ 20\<close> of a height repeats the lot of round 0
  of the next height.\<close>

theorem seeds_differ:
  assumes "h < 2 ^ 44" and "h' < 2 ^ 44" and "r < 2 ^ 20" and "r' < 2 ^ 20"
  shows "(seedForSortition h r = seedForSortition h' r' \<longleftrightarrow> h = h' \<and> r = r') \<and>
    seedForSortition h (2 ^ 20) = seedForSortition (h + 1) 0"
proof -
  have bound: "unat h < 2 ^ 44" if "h < 2 ^ 44" for h :: u64
    using that by (simp add: word_less_nat_alt)
  have round: "unat r < 2 ^ 20" if "r < 2 ^ 20" for r :: u64
    using that by (simp add: word_less_nat_alt)
  have seed: "unat (seedForSortition h r) = unat h * 2 ^ 20 + unat r"
    if "h < 2 ^ 44" "r < 2 ^ 20" for h r
  proof -
    have less: "unat h * 2 ^ 20 + unat r < 2 ^ LENGTH(64)"
      using bound [OF that(1)] round [OF that(2)] by simp
    have "seedForSortition h r = word_of_nat (unat h * 2 ^ 20 + unat r)"
      by (simp add: seedForSortition_def push_bit_eq_mult)
    then show ?thesis using less by (simp only: unat_of_nat mod_less)
  qed
  have "h = h' \<and> r = r'" if "seedForSortition h r = seedForSortition h' r'"
  proof -
    have e: "unat h * 2 ^ 20 + unat r = unat h' * 2 ^ 20 + unat r'"
      using that seed assms by metis
    have "(unat h * 2 ^ 20 + unat r) div 2 ^ 20 = unat h" "(unat h' * 2 ^ 20 + unat r') div 2 ^ 20 = unat h'"
      using round assms(3,4) by simp_all
    with e have "unat h = unat h'" by simp
    with e show ?thesis by (simp add: word_unat_eq_iff)
  qed
  then show ?thesis by (auto simp: seedForSortition_def push_bit_eq_mult algebra_simps)
qed

theorem seeds_differ_witness:
  "seedForSortition 5 3 \<noteq> seedForSortition 6 3 \<and> seedForSortition 5 (2 ^ 20) = seedForSortition 6 0"
  using seeds_differ [of 5 6 3 3] by simp

lemma max_round_loop_eq:
  "max_round_loop q m rounds =
     Max (insert m {r. \<exists>results. (r, results) \<in> set rounds \<and> q \<le> int (map_len results)})"
proof (induction q m rounds rule: max_round_loop.induct)
  case (2 quorum maxRound r results rest)
  define S where "S = {r. \<exists>results. (r, results) \<in> set rest \<and> quorum \<le> int (map_len results)}"
  have fin: "finite S" unfolding S_def by (rule finite_subset [of _ "fst ` set rest"]) force+
  have split: "{ra. \<exists>res. (ra, res) \<in> set ((r, results) # rest) \<and> quorum \<le> int (map_len res)} =
      (if quorum \<le> int (map_len results) then insert r S else S)" by (auto simp: S_def)
  have "Max (insert (max maxRound r) S) = Max (insert maxRound (insert r S))"
    using fin by (cases "S = {}") (simp_all add: max.assoc)
  moreover have "(if maxRound < r then r else maxRound) = max maxRound r" by simp
  ultimately show ?case using 2 unfolding split S_def [symmetric] by simp
qed simp

lemma zero_only: "Max (insert 0 {r :: u64. r = 0 \<and> P}) = 0"
  by (cases P) simp_all

text \<open>C29: A proposer's round at a height it has results for is one more than the largest
  round for which a quorum of nodes has reported a loss, or 1 when there is none; so it does
  not depend on the order in which the map of results is traversed. At a height it sees for
  the first time the round is 0, and when it looks again, without a single report, 1.\<close>

theorem next_round_by_quorum:
  assumes "fmlookup (sortitionResult n) h = Some s" and "map_order s rounds"
    and "fmlookup (sortitionResult n) h' = None"
  shows "next_round n rounds h =
      (Max (insert 0 {r. \<exists>results. fmlookup s r = Some results \<and> quorumNum n \<le> int (map_len results)}) + 1, n) \<and>
    (\<exists>n'. next_round n rounds' h' = (0, n') \<and>
       next_round n' [(0, fmempty)] h' = (1, n'))"
proof -
  have "(r, results) \<in> set rounds \<longleftrightarrow> fmlookup s r = Some results" for r results
    using assms(2) by (rule map_order_lookup)
  with assms(1,3) show ?thesis by (simp add: next_round_def max_round_loop_eq zero_only)
qed

theorem next_round_by_quorum_witness:
  "\<exists>n :: (unit, unit) node. \<exists>n'. next_round n [(7, fmempty), (2, fmupd ''a'' False fmempty)] 1 = (3, n) \<and> next_round n [] 4 = (0, n')"
proof -
  define s :: "(u64, (string, bool) fmap) fmap" where "s = fmap_of_list [(7, fmempty), (2, fmupd ''a'' False fmempty)]"
  obtain n0 :: "(unit, unit) node" where "NewNode toy one = Ret n0" by (simp add: exec_simps)
  define n where "n = n0\<lparr>quorumNum := 1, sortitionResult := fmupd 1 s fmempty\<rparr>"
  have "map_order s [(7, fmempty), (2, fmupd ''a'' False fmempty)]" by (simp add: map_order_def s_def)
  note * = next_round_by_quorum [of n 1 s, OF _ this, of 4 "[]"]
  have "{r. \<exists>results. fmlookup s r = Some results \<and> 1 \<le> int (map_len results)} = {2}"
    by (auto simp: s_def split: if_splits)
  with * obtain n' where "next_round n [(7, fmempty), (2, fmupd ''a'' False fmempty)] 1 = (3, n)"
    "next_round n [] 4 = (0, n')" by (auto simp: n_def)
  then show ?thesis by blast
qed

lemma ratio_error:
  assumes "0 \<le> x" "x \<le> 1" and "0 < p"
  shows "\<bar>round_float p x - x\<bar> \<le> 2 powi (- int p)"
proof (cases "x = 0 \<or> x = 1")
  case True
  moreover have "round_float p (of_int 1) = of_int 1"
    using assms(3) by (intro round_float_int) simp_all
  ultimately show ?thesis by auto
next
  case False
  with assms have x: "0 < x" "x < 2 powi 0" by simp_all
  then have "ilog2 x - (int p - 1) \<le> - int p" using ilog2_less [of x 0] by simp
  then have "(2 :: rat) powi (ilog2 x - (int p - 1)) \<le> 2 powi (- int p)"
    by (intro power_int_increasing) simp_all
  moreover have "(0 :: rat) \<le> 2 powi (ilog2 x - (int p - 1))" by simp
  ultimately show ?thesis using round_float_error [OF x(1), of p] by linarith
qed

lemma HashRatio_error:
  assumes "length bs = 32"
  shows "\<exists>r. HashRatio bs = Fin r \<and> 0 \<le> r \<and> r \<le> 1 \<and>
    \<bar>r - of_nat (int_SetBytes bs) / (2 ^ 256 - 1)\<bar> \<le> 1 / 2 ^ 52"
proof -
  let ?t = "of_int (int (int_SetBytes bs)) :: rat" and ?m = "of_int (2 ^ 256 - 1) :: rat"
  define x where "x = ?t / ?m"
  define y where "y = round_float 264 x"
  have lt: "int (int_SetBytes bs) < 2 ^ 256"
    using int_SetBytes_less [of bs] assms by simp
  have t: "round_float 264 ?t = ?t" using lt by (intro round_float_int) simp_all
  have m: "round_float 264 ?m = ?m" by (intro round_float_int) simp_all
  have x: "0 \<le> x" "x \<le> 1" using lt by (simp_all add: x_def divide_le_eq_1)
  note y = round_float_unit [OF x, of 264, folded y_def, simplified]
  have "HashRatio bs = to_float64 y"
    using assms t m by (simp add: HashRatio_def Let_def y_def x_def)
  moreover obtain r where r: "to_float64 y = Fin r" "0 \<le> r" "r \<le> 1" using to_float64_unit [OF y] by blast
  moreover from r(1) have "r = round_float 53 y" by (simp add: to_float64_def Let_def split: if_splits)
  moreover have "\<bar>round_float 53 y - x\<bar> \<le> 1 / 2 ^ 52"
  proof -
    have "\<bar>round_float 53 y - y\<bar> \<le> 1 / 2 ^ 53" "\<bar>y - x\<bar> \<le> 1 / 2 ^ 264"
      using ratio_error [OF y, of 53] ratio_error [OF x, of 264]
      by (simp_all add: power_int_def y_def inverse_eq_divide power_divide)
    moreover have "(1 :: rat) / 2 ^ 53 + 1 / 2 ^ 264 \<le> 1 / 2 ^ 52" by simp
    ultimately show ?thesis by linarith
  qed
  moreover have "x = of_nat (int_SetBytes bs) / (2 ^ 256 - 1)" by (simp add: x_def)
  ultimately show ?thesis by metis
qed

text \<open>C30: A node wins a lot exactly when the ratio of the verifiable random function's 32-byte
  output to the largest one is below its threshold, up to an error of \<open>2 ^ -52\<close>: the ratio the
  code computes in \<open>big.Float\<close> and \<open>float64\<close> arithmetic is a finite number between 0 and 1
  within that distance of the exact quotient.\<close>

theorem lots_follow_the_ratio:
  assumes "vrf_Prove c (s_pubKey s) (s_privKey s) (bytes_of_string (decimal (unat num))) = Inr (pf, output)"
    and "length output = 32"
  shows "\<exists>r. (fst (Once c s num) \<longleftrightarrow> Fin r < threshold s) \<and> 0 \<le> r \<and> r \<le> 1 \<and>
    \<bar>r - of_nat (int_SetBytes output) / (2 ^ 256 - 1)\<bar> \<le> 1 / 2 ^ 52"
  using HashRatio_error [OF assms(2)] assms(1) by (auto simp: Once_def)

theorem lots_follow_the_ratio_witness:
  "\<exists>r. (fst (Once (toy\<lparr>vrf_Prove := \<lambda>pk sk m. Inr ([7], 128 # replicate 31 0)\<rparr>)
       \<lparr>threshold = Fin (1/2), s_pubKey = [], s_privKey = []\<rparr> 5) \<longleftrightarrow> Fin r < Fin (1/2)) \<and> 0 \<le> r \<and> r \<le> 1 \<and>
    \<bar>r - of_nat (int_SetBytes (128 # replicate 31 0)) / (2 ^ 256 - 1)\<bar> \<le> 1 / 2 ^ 52"
  using lots_follow_the_ratio [of "toy\<lparr>vrf_Prove := \<lambda>pk sk m. Inr ([7], 128 # replicate 31 0)\<rparr>"
      "\<lparr>threshold = Fin (1/2), s_pubKey = [], s_privKey = []\<rparr>" 5 "[7]" "128 # replicate 31 0"]
  by simp

section \<open>Filing\<close>

text \<open>C8: Every block a node knows is filed under its own height and its own digest, in the
  pending blocks and in the candidate chain, in every reachable state, although the two share
  their maps and are updated by several goroutines.\<close>

theorem blocks_filed_under_their_hash:
  assumes "reachable (proc_init c conf) (proc_next c) p"
    and "pending_block (p_node p) h s = Some b \<or>
      cc_block (block_store (p_node p)) (candidateChain (p_node p)) h s = Some b"
  shows "Height b = h \<and> block_key c b = s"
  using pending_block_filed [OF reachable_inv(1) [OF assms(1)]]
    cc_block_filed [OF reachable_inv(1) [OF assms(1)]] assms(2) by blast

theorem blocks_filed_under_their_hash_witness:
  "\<exists>p b. reachable (proc_init toy one) (proc_next toy) p \<and> pending_block (p_node p) 1 ''61'' = Some b \<and>
     cc_block (block_store (p_node p)) (candidateChain (p_node p)) 1 ''61'' = Some b \<and>
     Height b = 1 \<and> block_key toy b = ''61''"
proof -
  obtain l where l: "exec toy one (file_block blk_a @ grow) = Some (l, [])"
    "pending_block (fst l) 1 ''61'' = Some blk_a"
    "cc_block (block_store (fst l)) (candidateChain (fst l)) 1 ''61'' = Some blk_a"
    by (simp add: exec_simps)
  from blocks_filed_under_their_hash [OF exec_reachable [OF l(1)], of 1 "''61''" blk_a] exec_reachable [OF l(1)] l(2,3)
  show ?thesis by (intro exI [of _ "live_proc l"] exI [of _ blk_a]) (simp add: live_proc_def)
qed

end
