(* ===== verification/Node_Delivery.thy ===== *)
theory Node_Delivery
  imports Node_Liveness
begin

text \<open>
  From the network to the certificate: a message a node accepts is not lost between the
  goroutines that handle it, so once they are done, the proposal and the votes received are
  in the node's tables, and a proposal that a quorum has voted for has its certificate.
\<close>

section \<open>An accepted message is not lost\<close>

definition accepted :: "('ps, 'pp) crypto \<Rightarrow> ('ps, 'pp) node \<Rightarrow> event list \<Rightarrow> message \<Rightarrow> bool" where
  "accepted c n evs m \<longleftrightarrow>
     (\<exists>sig. Receive m sig \<in> set evs \<and>
        verifySigED25519 c n (claimed_sender m) (goval_of_message m) sig = Ret True)"

text \<open>Where an accepted message is: with a goroutine, or filed.\<close>

fun in_hand :: "('ps, 'pp) crypto \<Rightarrow> ('ps, 'pp) proc \<Rightarrow> message \<Rightarrow> bool" where
  "in_hand c p (MsgBlock b) \<longleftrightarrow>
     HandleNewBlockMsg b \<in># p_tasks p \<or> HandleNewBlock b \<in># p_tasks p \<or>
     pending_block (p_node p) (Height b) (block_key c b) \<noteq> None"
| "in_hand c p (MsgVote v) \<longleftrightarrow>
     HandleVoteMsg v \<in># p_tasks p \<or>
     Sender v |\<in>| fmdom (votes_for (p_node p) (BlockHeight (v_PlainVote v))
       (hex_EncodeToString (contents (BlockHash (v_PlainVote v)))))"
| "in_hand c p (MsgSortition m) \<longleftrightarrow> True"

lemma in_hand_mono:
  assumes "in_hand c p m" "p_tasks p \<subseteq># p_tasks q"
    and "\<And>h s. pending_block (p_node q) h s = pending_block (p_node p) h s"
    and "\<And>h s. votes_for (p_node q) h s = votes_for (p_node p) h s"
  shows "in_hand c q m"
  using assms(1) mset_subset_eqD [OF assms(2)] by (cases m) (auto simp: assms(3,4))

lemma in_hand_block_run:
  assumes "store_inv c n" "run_task c order n t = Ret (n', ts, out)"
    and "in_hand c (p\<lparr>p_node := n, p_tasks := add_mset t rest\<rparr>) (MsgBlock b)"
  shows "in_hand c (p\<lparr>p_node := n', p_tasks := rest + mset ts\<rparr>) (MsgBlock b)"
proof (cases "t = HandleNewBlockMsg b \<or> t = HandleNewBlock b")
  case True
  from assms(2) show ?thesis
  proof (cases rule: run_task_Ret)
    case (new_block b' n1 r)
    with True have "pending_block n' (Height b) (block_key c b) \<noteq> None"
      using new_block_key [of n b n1 r n' c] by simp
    then show ?thesis by simp
  qed (use True in simp_all)
next
  case False
  with assms(3) pending_block_run [OF assms(1,2), of "Height b" "block_key c b"] show ?thesis by auto
qed

lemma in_hand_vote_run:
  assumes "run_task c order n t = Ret (n', ts, out)"
    and "in_hand c (p\<lparr>p_node := n, p_tasks := add_mset t rest\<rparr>) (MsgVote v)"
  shows "in_hand c (p\<lparr>p_node := n', p_tasks := rest + mset ts\<rparr>) (MsgVote v)"
proof (cases "t = HandleVoteMsg v")
  case True
  with assms(1) have "(n', ts, out) = handleVoteMsg n v" by simp
  then show ?thesis by (simp add: handleVoteMsg_votes)
next
  case False
  with assms(2) votes_run [OF assms(1)] show ?thesis by (auto dest: fsubsetD)
qed

lemma in_hand_step:
  assumes "store_inv c (p_node p)" "in_hand c p m" "proc_step c p ev out q"
  shows "in_hand c q m"
  using assms(3)
proof (cases rule: proc_step.cases)
  case (run t rest order n' ts)
  then have p: "p\<lparr>p_node := p_node p, p_tasks := add_mset t rest\<rparr> = p" by simp
  show ?thesis
    using in_hand_block_run [OF assms(1) run(7), where p = p and rest = rest]
      in_hand_vote_run [OF run(7), where p = p and rest = rest]
      assms(2) run(2) unfolding p by (cases m) simp_all
next
  case (propose n' l' ts)
  note same = votes_for_propose(1,2) [OF propose(5)]
  show ?thesis by (rule in_hand_mono [OF assms(2)]) (simp_all add: propose same)
qed (rule in_hand_mono [OF assms(2)]; simp)+

lemma accepted_in_hand:
  assumes "proc_step c p (Receive m sig) out q"
    and "verifySigED25519 c (p_node p) (claimed_sender m) (goval_of_message m) sig = Ret True"
  shows "in_hand c q m"
  using assms(1)
proof (cases rule: proc_step.cases)
  case (receive ts)
  then have "ts = [handler_task m]" using assms(2) by (simp add: HandleMsgsLoop_turn_def)
  with receive show ?thesis by (cases m) auto
next
  case (receive_panic e)
  with assms(2) show ?thesis by (simp add: HandleMsgsLoop_turn_def)
qed

lemma all_in_hand:
  assumes "proc_run c p evs out q" and "proc_init c conf p"
  shows "accepted c (p_node q) evs m \<Longrightarrow> in_hand c q m"
  using assms
proof (induction rule: proc_run.induct)
  case (run_nil p)
  then show ?case by (simp add: accepted_def)
next
  case (run_snoc p evs out q ev out' r)
  have "store_inv c (p_node q)"
    using reachable_inv(1) proc_run_reachable [OF run_snoc(1)] run_snoc.prems reachable.intros(1) by metis
  moreover have "in_hand c q m \<or> (\<exists>sig. ev = Receive m sig \<and>
      verifySigED25519 c (p_node q) (claimed_sender m) (goval_of_message m) sig = Ret True)"
    using run_snoc.prems run_snoc.IH proc_step_static [OF run_snoc(2)]
    by (auto simp: accepted_def verifySig_static [of "p_node r" "p_node q"])
  ultimately show ?case using in_hand_step accepted_in_hand run_snoc(2) by metis
qed

section \<open>A delivered quorum gives a certificate\<close>

text \<open>C13: What a node is sent is enough for it to certify a block at a height: once its
  goroutines have come to rest, if it has accepted a proposal and votes for it from a quorum
  of distinct senders, in whatever order they came and whatever else happened in between,
  then the proposal and these votes are recorded, and a certificate was built for a block at
  the proposal's height with a recorded quorum (this proposal, if no other at the height has
  one), which waits in \<open>pendingBlocksQC\<close> or was put on top of the committed chain at some
  moment of the run.\<close>

theorem delivered_quorum_is_certified:
  assumes "proc_init c conf p0" and "through c p0 evs out ps p" and "idle p"
    and "accepted c (p_node p) evs (MsgBlock b)"
    and "\<forall>x \<in> X. \<exists>v. accepted c (p_node p) evs (MsgVote v) \<and> Sender v = x \<and> v_PlainVote v = plain_vote c b"
    and "quorumNum (p_node p) \<le> int (card X)"
  shows "pending_block (p_node p) (Height b) (block_key c b) \<noteq> None \<and>
    X \<subseteq> fset (fmdom (votes_for (p_node p) (Height b) (block_key c b))) \<and>
    certificate_kept c ps (p_node p) (Height b)"
proof -
  let ?votes = "votes_for (p_node p) (Height b) (block_key c b)"
  note tasks = idle_tasks [OF assms(3) reachable_unlocked [OF through_reachable [OF assms(2,1)]]]
  note hand = all_in_hand [OF through_run [OF assms(2)] assms(1)]
  have block: "pending_block (p_node p) (Height b) (block_key c b) \<noteq> None"
    using hand [OF assms(4)] tasks by fastforce
  have voters: "X \<subseteq> fset (fmdom ?votes)"
  proof
    fix x assume "x \<in> X"
    then obtain v where "accepted c (p_node p) evs (MsgVote v)" "Sender v = x" "v_PlainVote v = plain_vote c b"
      using assms(5) by blast
    with hand [of "MsgVote v"] tasks show "x \<in> fset (fmdom ?votes)"
      by (fastforce simp: plain_vote_eq block_key_def)
  qed
  then have "card X \<le> map_len ?votes" by (simp add: map_len_def fcard.rep_eq card_mono)
  with assms(6) block have "has_quorum (p_node p) (Height b) (block_key c b)" by (simp add: has_quorum_def)
  from idle_certified [OF assms(1-3) this] block voters show ?thesis by blast
qed

abbreviation settle_a :: "choice list" where
  "settle_a \<equiv> commit_a @ [DoRun (CheckIfQuorumVotes 1 ''61'') [], DoRun TryExtendCandidateChain [],
     DoRun TryExtendChain []]"

lemma settle_a_verifies:
  "\<exists>l. exec toy one settle_a = Some (l, [MsgVote (toy_vote ''a'' blk_a)]) \<and>
     snd l = [SendHeight 1] \<and> candidateHeightUpdated (fst l) = [0] \<and> quorumNum (fst l) = 1 \<and>
     verifySigED25519 toy (fst l) ''a'' (goval_of_Block blk_a) [] = Ret True \<and>
     verifySigED25519 toy (fst l) ''a'' (goval_of_Vote (toy_vote ''a'' blk_a)) [] = Ret True"
  by (simp add: exec_simps commit_a_def)

theorem delivered_quorum_is_certified_witness:
  "\<exists>p0 evs ps p. proc_init toy one p0 \<and> through toy p0 evs [MsgVote (toy_vote ''a'' blk_a)] ps p \<and> idle p \<and>
     Receive (MsgVote (toy_vote ''a'' blk_a)) [] \<in> set evs \<and>
     ''a'' |\<in>| fmdom (votes_for (p_node p) 1 ''61'') \<and>
     certificate_kept toy ps (p_node p) 1"
proof -
  obtain l where l: "exec toy one settle_a = Some (l, [MsgVote (toy_vote ''a'' blk_a)])"
    "snd l = [SendHeight 1]" "candidateHeightUpdated (fst l) = [0]" "quorumNum (fst l) = 1"
    "verifySigED25519 toy (fst l) ''a'' (goval_of_Block blk_a) [] = Ret True"
    "verifySigED25519 toy (fst l) ''a'' (goval_of_Vote (toy_vote ''a'' blk_a)) [] = Ret True"
    using settle_a_verifies by blast
  let ?evs = "map event_of settle_a"
  obtain p0 where run: "proc_init toy one p0" "proc_run toy p0 ?evs [MsgVote (toy_vote ''a'' blk_a)] (live_proc l)"
    using exec_run_of [OF l(1)] by blast
  obtain ps where ps: "through toy p0 ?evs [MsgVote (toy_vote ''a'' blk_a)] ps (live_proc l)"
    using run_through [OF run(2)] by blast
  have idle: "idle (live_proc l)" using l(2,3) by (simp add: idle_def live_proc_def)
  have evs: "Receive (MsgBlock blk_a) [] \<in> set ?evs" "Receive (MsgVote (toy_vote ''a'' blk_a)) [] \<in> set ?evs"
    by (simp_all add: commit_a_def file_block_def count_vote_def)
  have block: "accepted toy (p_node (live_proc l)) ?evs (MsgBlock blk_a)"
    unfolding accepted_def by (rule exI [of _ "[]"]) (use evs l in \<open>simp add: live_proc_def\<close>)
  have "accepted toy (p_node (live_proc l)) ?evs (MsgVote (toy_vote ''a'' blk_a))"
    unfolding accepted_def by (rule exI [of _ "[]"]) (use evs l in \<open>simp add: live_proc_def\<close>)
  moreover have "v_PlainVote (toy_vote ''a'' blk_a) = plain_vote toy blk_a"
    by (simp only: toy_vote_def VoteWithPartialSig.select_convs)
  ultimately have votes: "\<forall>x \<in> {''a''}. \<exists>v. accepted toy (p_node (live_proc l)) ?evs (MsgVote v) \<and> Sender v = x \<and>
      v_PlainVote v = plain_vote toy blk_a"
    by (intro ballI exI [of _ "toy_vote ''a'' blk_a"]) simp
  have "quorumNum (p_node (live_proc l)) \<le> int (card {''a''})" using l(4) by (simp add: live_proc_def)
  from delivered_quorum_is_certified [OF run(1) ps idle block votes this] run(1) ps idle evs(2)
  show ?thesis
    by (intro exI [of _ p0] exI [of _ ?evs] exI [of _ ps] exI [of _ "live_proc l"]) simp
qed

end
