(* ===== verification/Spec2Isabelle.thy ===== *)
theory Spec2Isabelle
  imports Startup Cluster_Agreement Node_Termination Data_Properties Node_Delivery
begin

text \<open>
  A verification development for SimpleFT (module \<open>yimchain\<close>), a fault-tolerant ledger in Go.

  A cluster of nodes accepts requests from clients over RPC, packages them into blocks,
  votes on the blocks with partial threshold signatures, assembles the votes of a quorum
  into a certificate, and commits certified blocks and their ancestors to a chain. Who may
  propose at a height is drawn by lot with a verifiable random function.

  \<^bold>\<open>The program and the theories that model it\<close>

  \<^item> \<open>Prelude\<close>, \<open>Go_Encoding\<close>, \<open>Go_Float\<close>, \<open>Go_JSON\<close>: what the code takes from Go. Slices are
    \<open>slice\<close> (nil or a list), errors are values of \<open>error\<close> in the left of a sum, a panic is
    \<open>Panic\<close> of the type \<open>outcome\<close>, a map is a finite map whose \<open>range\<close> order is a list that
    \<open>map_order\<close> ties to it and every theorem quantifies over. \<open>json.Encoder\<close> and
    \<open>json.Decoder\<close> (strings with escapes, numbers, arrays, objects, base64 for bytes,
    case-folded field names), \<open>hex\<close>, \<open>base64\<close>, \<open>strconv.Itoa\<close>, \<open>float64\<close> and
    \<open>big.Float\<close> with rounding to nearest even are defined here. \<open>Go_JSON_Roundtrip\<close>: the
    decoder inverts the encoder on the values the program writes. The parser takes fuel, its
    depth; \<open>json_Decode\<close> gives it one more than the length of the input, and every level
    consumes a character, so it does not run out (\<open>need_le_length\<close>).
  \<^item> \<open>Sign\<close> and \<open>Sign_Keys\<close>: \<open>sign/sign_tools.go\<close>. The primitives (sha256, ed25519, tbls, bls)
    and kyber's types and operations are the records \<open>crypto\<close> and \<open>kyber\<close> and type parameters.
  \<^item> \<open>Rpc_Handler\<close>: \<open>core/rpc_handler.go\<close>, with the interleaving \<open>rpc_step\<close> of concurrent calls.
  \<^item> \<open>Block\<close>: \<open>core/block.go\<close>, \<open>core/vote.go\<close>, \<open>core/msg_type.go\<close>, \<open>core/utils.go\<close>. \<open>block.go\<close>
    imports the signing package under another module path than the rest; it is read as \<open>sign\<close>.
  \<^item> \<open>Chain\<close>: \<open>core/chain.go\<close>, the committed and the candidate chain.
  \<^item> \<open>Sortition\<close>: \<open>sortition/sortition_utils.go\<close>; the random function is a parameter.
  \<^item> \<open>Node\<close>: \<open>core/node.go\<close>, the state \<open>node\<close> (the struct's fields; \<open>block_store\<close> holds the
    maps of blocks that \<open>pendingBlocks\<close> and the candidate chain share) and a definition per
    handler and loop. \<open>Node_Steps\<close> turns them into the steps of a process: a multiset of
    goroutines, each atomic between two acquisitions of the node's lock, any of which may run
    next; the message loop and the arrival of requests are further steps. \<open>ProposeBlockLoop\<close>
    holds no lock, so it is a state machine (\<open>phase\<close>, \<open>proposer\<close>, \<open>loop_step\<close>) whose phases
    the other goroutines run between: waiting for its timer, waiting for a height, selecting
    a block, drawing lots, packaging, writing a message to the peers. A call of \<open>broadcast\<close>
    (\<open>broadcast_out\<close>) signs the message, which panics for a key of the wrong length, and starts
    writing; the loop stays in the phase \<open>Writing\<close> until it returns, which may be never. The
    vote of \<open>castVote\<close> is written within one step, under the lock.
    \<open>Node_Exec\<close> runs schedules, for the concrete executions of \<open>Demo\<close> and \<open>Scenarios\<close>.
  \<^item> \<open>Transport\<close>: \<open>conn/\<close> and the parts of \<open>core/node.go\<close> that use it (\<open>broadcast\<close>,
    \<open>EstablishP2PConns\<close>, \<open>StartP2PListen\<close>): the pool of connections, frames, buffered writing,
    the listening loop, the handler of a connection with its context, shutdown. The network and go-msgpack are parameters (\<open>net\<close>, \<open>msgpack\<close>).
  \<^item> \<open>Config\<close>, \<open>Config_Load\<close>, \<open>Config_Gen\<close>: \<open>config/config.go\<close> and \<open>config_gen/main.go\<close>; viper
    is a function from the set-up the code makes (\<open>viper_setup\<close>: prefix, environment, key
    replacer, file) to what it reads (\<open>viper\<close>). \<open>Quorum\<close>: the threshold computed by both.
  \<^item> \<open>Startup\<close>: \<open>main.go\<close>, \<open>StartRPCListen\<close>, and \<open>client/main.go\<close>: the flags \<open>Run\<close> declares,
    what they are stored in, the action and \<open>sendRequest\<close>, whose request crosses \<open>encoding/gob\<close>
    (\<open>gob_Request\<close>: an empty slice arrives as nil). The parser of the command line is a
    parameter.

  \<^bold>\<open>What the lemmas show\<close>

  \<^item> \<open>Node_Invariants\<close>, \<open>Node_Quorum\<close>, \<open>Node_Progress\<close>: an inductive invariant of the process,
    interpreted into the locale \<open>inductive_invariant\<close>: ownership of the shared maps, no gaps
    in the chains, one certificate per height under way, certificates backed by recorded
    votes, and a wake-up pending wherever something can be done.
  \<^item> \<open>Node_Votes\<close>, \<open>Node_Properties\<close>, \<open>Node_Liveness\<close>, \<open>Node_Panics\<close>, \<open>Node_Termination\<close>: safety
    of committing and voting, that an idle node is caught up (each quorum has had its
    certificate, still waiting or once on top of the committed chain), that goroutines come to
    rest, and the complete list of what can make a node panic.
  \<^item> \<open>Node_Delivery\<close>: what a node has accepted is in hand from then on, recorded or with a
    goroutine under way, so a height with a delivered quorum has its certificate once the node is at rest.
    \<open>Node_Proposing\<close>: the timers never leave the proposing loop waiting for nothing, it
    gets on from every phase but the waits for a height and for a peer, and requests leave the pool in blocks, oldest first.
  \<^item> \<open>Voting_Spec\<close>: the node refines a deterministic abstract voter: the actions observed in a
    run (\<open>traced\<close>) are allowed one by one and give exactly the node's tables (\<open>replay\<close>). \<open>Cluster\<close>: in a cluster whose faulty
    members are too few for two quorums to meet only in them, and whose signatures cannot be
    forged, correct nodes never have quorums for different blocks of a height.
    \<open>Cluster_Agreement\<close>: then they also commit the same blocks, as far as the certified blocks
    lie on one branch; the code does not enforce that, and \<open>Scenarios\<close> shows what happens
    where they do not.
  \<^item> \<open>Scenarios\<close>, \<open>Transport_Node\<close>: executions that show what the code does not prevent: a
    crash on a missing ancestor or a bad partial signature, diverging and replaced commits
    through ancestors; and that any vote is lost for good when the first peer is down.
  \<^item> \<open>Transport_Properties\<close>, \<open>Transport_Node\<close>: the pool's invariant, delivery in order, broadcast
    from one node to the handler of another, the listening loop and shutdown.
  \<^item> \<open>Config_Properties\<close>: what viper documents of the files it writes and of environment
    variables (\<open>reads_settings\<close>); generated files load as the configuration they were generated
    for, if no variable overrides them and no node's name has a dot; with such a name loading
    panics.
  \<^item> \<open>Data_Properties\<close>: serial numbers, comparison of blocks, lots, rounds, filing of blocks.

  \<^bold>\<open>Bounds\<close>

  Heights, rounds and serial numbers are 64-bit words and wrap. Go's \<open>int\<close> is an unbounded
  integer where the code only compares and counts with it; the threshold's equality with the
  floating-point quorum is proved below \<open>2 ^ 49\<close> members, where the quotient is still exact
  enough, and the round trip of a share for 64-bit indices. That goroutines come to rest
  needs the candidate chain below the last height.

  \<^bold>\<open>Not modelled\<close>

  \<^item> How long things take: a timer of the proposing loop may fire at any time after it was
    started. The shutdown channel of the node is never closed by the program, so its cases
    are left out.
  \<^item> Data races inside one phase or goroutine (\<open>selectBlock\<close> and \<open>buildBlockWithQC\<close> read shared
    maps without the lock): one such read is atomic, and Go's detection of concurrent map
    accesses, which would end the program, is not modelled.
  \<^item> Logging; viper, go-msgpack, kyber, the VRF, \<open>net/rpc\<close>, the library that parses command
    lines and the operating system, which are parameters. The methods of \<open>TCPStreamLayer\<close> and
    the remaining accessors of \<open>conn/\<close> only pass calls on to the operating system's listener,
    or return the message channel.
\<close>

end
